theory Spec2Isabelle
  imports Main "HOL-Library.Word"
begin

unbundle bit_operations_syntax

section \<open>Common data model\<close>

text \<open>
  The file \<^verbatim>\<open>src/app/utils.cc\<close> holds four independent routines: \<^verbatim>\<open>fourCcFromString\<close>,
  \<^verbatim>\<open>convert_rgb_to_yuyv\<close>, \<^verbatim>\<open>alpha_blend\<close> and \<^verbatim>\<open>resolve_path\<close>. Each is embedded below
  as a HOL function of the same name. Everything by which a C++ call can end other than
  by returning a value is a constructor of \<open>failure\<close>, and a routine returns
  \<open>failure + 'a\<close> (\<open>Inl\<close> the failure).
\<close>

type_synonym u8 = "8 word"
type_synonym u32 = "32 word"

text \<open>
  The first group of constructors are the ways the source itself can stop: a failed
  \<^verbatim>\<open>assert\<close> (abort), an access outside a buffer, a signed overflow, the use of a null
  pointer as a C string, a loop that never ends, the two exceptions of \<^verbatim>\<open>std::stoi\<close>,
  and an exception of the image library. The last four are the typed errors of the
  specification's taxonomy; no path of the source constructs them.
\<close>

datatype failure =
    AssertionFailed
  | OutOfBounds
  | SignedOverflow
  | NullPointer
  | Nontermination
  | Std_invalid_argument
  | Std_out_of_range
  | CvException
  | DimensionMismatch
  | InvalidLayout
  | InvalidDimensions
  | InvalidFourCC

text \<open>C++ integer division truncates toward zero; HOL's \<open>div\<close> on \<open>int\<close> floors.\<close>

definition c_div :: "int \<Rightarrow> int \<Rightarrow> int" where
  "c_div a b = sgn a * sgn b * (\<bar>a\<bar> div \<bar>b\<bar>)"

text \<open>The cast \<^verbatim>\<open>(uint8_t)\<close> of an \<^verbatim>\<open>int\<close> keeps the low eight bits.\<close>

definition to_u8 :: "int \<Rightarrow> u8" where
  "to_u8 x = word_of_int x"

definition INT_MAX :: nat where
  "INT_MAX = 2147483647"

subsection \<open>The image matrix\<close>

text \<open>
  A \<^verbatim>\<open>cv::Mat\<close> as the source uses it: a header (\<^verbatim>\<open>rows\<close>, \<^verbatim>\<open>cols\<close>, and the
  \<^verbatim>\<open>type()\<close>, which is the element depth together with the channel count) and the
  raw byte buffer behind \<^verbatim>\<open>data\<close>, row-major and channel-interleaved. The source walks
  \<^verbatim>\<open>data\<close> as one flat array, so the buffer is one byte list.
\<close>

datatype cv_depth = CV_8U | CV_8S | CV_16U | CV_16S | CV_32S | CV_32F | CV_64F | CV_16F

record Mat =
  rows :: nat
  cols :: nat
  depth :: cv_depth
  channels :: nat
  data :: "u8 list"

fun elemSize1 :: "cv_depth \<Rightarrow> nat" where
  "elemSize1 CV_8U = 1"
| "elemSize1 CV_8S = 1"
| "elemSize1 CV_16U = 2"
| "elemSize1 CV_16S = 2"
| "elemSize1 CV_32S = 4"
| "elemSize1 CV_32F = 4"
| "elemSize1 CV_64F = 8"
| "elemSize1 CV_16F = 2"

definition total :: "Mat \<Rightarrow> nat" where
  "total m = rows m * cols m"

definition is_8UC1 :: "Mat \<Rightarrow> bool" where
  "is_8UC1 m = (depth m = CV_8U \<and> channels m = 1)"

definition is_8UC3 :: "Mat \<Rightarrow> bool" where
  "is_8UC3 m = (depth m = CV_8U \<and> channels m = 3)"

text \<open>
  A well-formed matrix owns exactly the bytes its header announces. The source also
  computes the pixel count in the C type \<^verbatim>\<open>int\<close> (\<^verbatim>\<open>srca.rows * srca.cols\<close>) and
  indexes with \<^verbatim>\<open>unsigned int\<close>; \<open>mat_ok\<close> therefore also says that the pixel count is
  at most \<open>INT_MAX\<close>. The functions below do not assume it: they model what happens
  beyond it.
\<close>

definition mat_ok :: "Mat \<Rightarrow> bool" where
  "mat_ok m = (length (data m) = rows m * cols m * channels m * elemSize1 (depth m)
               \<and> rows m * cols m \<le> INT_MAX)"

text \<open>Checked access to a raw buffer: the source reads and writes through bare pointers.\<close>

definition rd :: "u8 list \<Rightarrow> nat \<Rightarrow> failure + u8" where
  "rd buf p = (if p < length buf then Inr (buf ! p) else Inl OutOfBounds)"

definition wr :: "u8 list \<Rightarrow> nat \<Rightarrow> u8 \<Rightarrow> failure + u8 list" where
  "wr buf p v = (if p < length buf then Inr (buf[p := v]) else Inl OutOfBounds)"

section \<open>The alpha compositor\<close>

text \<open>
  \<^verbatim>\<open>alpha_blend\<close> walks four pointers: \<^verbatim>\<open>aptr\<close>, \<^verbatim>\<open>bptr\<close>, \<^verbatim>\<open>mptr\<close> read the inputs,
  \<^verbatim>\<open>optr\<close> writes the output. The state of the loop is the four offsets and the output
  buffer.
\<close>

record blend_state =
  aptr :: nat
  bptr :: nat
  mptr :: nat
  optr :: nat
  obuf :: "u8 list"

text \<open>
  One line \<^verbatim>\<open>*optr++ = (uint8_t)(( (int)(*aptr++) * aw + (int)(*bptr++) * bw ) / 255);\<close>
\<close>

definition blend_channel :: "u8 list \<Rightarrow> u8 list \<Rightarrow> int \<Rightarrow> int \<Rightarrow> blend_state \<Rightarrow> failure + blend_state" where
  "blend_channel A B aw bw s =
     (case rd A (aptr s) of Inl e \<Rightarrow> Inl e | Inr x \<Rightarrow>
      case rd B (bptr s) of Inl e \<Rightarrow> Inl e | Inr y \<Rightarrow>
      case wr (obuf s) (optr s) (to_u8 (c_div (uint x * aw + uint y * bw) 255)) of
        Inl e \<Rightarrow> Inl e
      | Inr ob \<Rightarrow> Inr (s\<lparr>aptr := aptr s + 1, bptr := bptr s + 1, optr := optr s + 1, obuf := ob\<rparr>))"

text \<open>The loop body: the two weights from the mask byte, then the three channel lines.\<close>

definition blend_pixel :: "u8 list \<Rightarrow> u8 list \<Rightarrow> u8 list \<Rightarrow> blend_state \<Rightarrow> failure + blend_state" where
  "blend_pixel A B M s =
     (case rd M (mptr s) of Inl e \<Rightarrow> Inl e | Inr w \<Rightarrow>
      let aw = uint w; bw = 255 - aw; s0 = s\<lparr>mptr := mptr s + 1\<rparr> in
      case blend_channel A B aw bw s0 of Inl e \<Rightarrow> Inl e | Inr s1 \<Rightarrow>
      case blend_channel A B aw bw s1 of Inl e \<Rightarrow> Inl e | Inr s2 \<Rightarrow>
      blend_channel A B aw bw s2)"

text \<open>\<^verbatim>\<open>for (size_t pix = 0, npix = ...; pix < npix; ++pix)\<close>\<close>

function blend_loop :: "u8 list \<Rightarrow> u8 list \<Rightarrow> u8 list \<Rightarrow> nat \<Rightarrow> nat \<Rightarrow> blend_state \<Rightarrow> failure + blend_state" where
  "blend_loop A B M pix npix s =
     (if pix < npix then
        (case blend_pixel A B M s of
           Inl e \<Rightarrow> Inl e
         | Inr s' \<Rightarrow> blend_loop A B M (pix + 1) npix s')
      else Inr s)"
  by pat_completeness auto
termination
  by (relation "measure (\<lambda>(A, B, M, pix, npix, s). npix - pix)") auto

declare blend_loop.simps [simp del]

text \<open>
  The seven asserts come first and abort when one fails (the model is of a build in which
  \<^verbatim>\<open>assert\<close> is active, that is, without \<^verbatim>\<open>NDEBUG\<close>). \<^verbatim>\<open>cv::Mat::zeros\<close> then gives
  a zero-filled matrix of the size and type of \<^verbatim>\<open>srca\<close>. The pixel count
  \<^verbatim>\<open>srca.rows * srca.cols\<close> is a product of two \<^verbatim>\<open>int\<close>s, converted to \<^verbatim>\<open>size_t\<close> after
  the multiplication: beyond \<open>INT_MAX\<close> it is a signed overflow. (The parameter
  \<^verbatim>\<open>mask\<close> is written \<open>msk\<close>: \<open>mask\<close> is a constant of the word library.)
\<close>

definition blend_asserts :: "Mat \<Rightarrow> Mat \<Rightarrow> Mat \<Rightarrow> bool" where
  "blend_asserts srca srcb msk =
     (rows srca = rows srcb \<and> cols srca = cols srcb \<and>
      rows msk = rows srca \<and> cols msk = cols srca \<and>
      is_8UC3 srca \<and> is_8UC3 srcb \<and> is_8UC1 msk)"

definition zeros :: "nat \<Rightarrow> nat \<Rightarrow> cv_depth \<Rightarrow> nat \<Rightarrow> Mat" where
  "zeros r c d cn =
     \<lparr>rows = r, cols = c, depth = d, channels = cn,
      data = replicate (r * c * cn * elemSize1 d) 0\<rparr>"

definition alpha_blend :: "Mat \<Rightarrow> Mat \<Rightarrow> Mat \<Rightarrow> failure + Mat" where
  "alpha_blend srca srcb msk =
     (if \<not> blend_asserts srca srcb msk then Inl AssertionFailed
      else
        let out = zeros (rows srca) (cols srca) (depth srca) (channels srca) in
        if rows srca * cols srca > INT_MAX then Inl SignedOverflow
        else
          (case blend_loop (data srca) (data srcb) (data msk) 0 (rows srca * cols srca)
                  \<lparr>aptr = 0, bptr = 0, mptr = 0, optr = 0, obuf = data out\<rparr> of
             Inl e \<Rightarrow> Inl e
           | Inr s \<Rightarrow> Inr (out\<lparr>data := obuf s\<rparr>)))"

section \<open>The pixel format converter\<close>

text \<open>
  \<^verbatim>\<open>convert_rgb_to_yuyv\<close> calls two services of the image library. \<^verbatim>\<open>cv::cvtColor\<close> with
  \<^verbatim>\<open>COLOR_RGB2YUV\<close> is a parameter of the embedding (\<open>cvtColor\<close>, which may throw).
  \<^verbatim>\<open>cv::split\<close> is modelled as the library documents it: one single-channel plane per
  channel, each holding that channel's element of every pixel in order; for an empty
  matrix the library releases the output vector, which leaves it without planes.
\<close>

definition split_plane :: "Mat \<Rightarrow> nat \<Rightarrow> Mat" where
  "split_plane m k =
     \<lparr>rows = rows m, cols = cols m, depth = depth m, channels = 1,
      data = concat (map (\<lambda>p. take (elemSize1 (depth m))
                               (drop ((p * channels m + k) * elemSize1 (depth m)) (data m)))
                         [0..<rows m * cols m])\<rparr>"

definition cv_split :: "Mat \<Rightarrow> Mat list" where
  "cv_split m = (if rows m * cols m = 0 then [] else map (split_plane m) [0..<channels m])"

text \<open>
  The loop counter \<^verbatim>\<open>i\<close> is an \<^verbatim>\<open>unsigned int\<close>: \<^verbatim>\<open>i + 1\<close>, \<^verbatim>\<open>2 * i + k\<close> and
  \<^verbatim>\<open>i += 2\<close> are computed modulo \<open>2^32\<close>, while the bound \<^verbatim>\<open>yuyv.total()\<close> is a
  \<^verbatim>\<open>size_t\<close>.
\<close>

definition uint_wrap :: "nat \<Rightarrow> nat" where
  "uint_wrap n = n mod 4294967296"

text \<open>The body of the loop: the two averages, then the four stores.\<close>

definition yuyv_pair :: "u8 list \<Rightarrow> u8 list \<Rightarrow> u8 list \<Rightarrow> nat \<Rightarrow> u8 list \<Rightarrow> failure + u8 list" where
  "yuyv_pair ydata udata vdata i outdata =
     (case rd udata i of Inl e \<Rightarrow> Inl e | Inr u0 \<Rightarrow>
      case rd udata (uint_wrap (i + 1)) of Inl e \<Rightarrow> Inl e | Inr u1 \<Rightarrow>
      case rd vdata i of Inl e \<Rightarrow> Inl e | Inr v0 \<Rightarrow>
      case rd vdata (uint_wrap (i + 1)) of Inl e \<Rightarrow> Inl e | Inr v1 \<Rightarrow>
      let u = to_u8 (c_div (uint u0 + uint u1) 2);
          v = to_u8 (c_div (uint v0 + uint v1) 2) in
      case rd ydata (uint_wrap (i + 0)) of Inl e \<Rightarrow> Inl e | Inr y0 \<Rightarrow>
      case wr outdata (uint_wrap (2 * i + 0)) y0 of Inl e \<Rightarrow> Inl e | Inr o1 \<Rightarrow>
      case wr o1 (uint_wrap (2 * i + 1)) v of Inl e \<Rightarrow> Inl e | Inr o2 \<Rightarrow>
      case rd ydata (uint_wrap (i + 1)) of Inl e \<Rightarrow> Inl e | Inr y1 \<Rightarrow>
      case wr o2 (uint_wrap (2 * i + 2)) y1 of Inl e \<Rightarrow> Inl e | Inr o3 \<Rightarrow>
      wr o3 (uint_wrap (2 * i + 3)) u)"

text \<open>
  \<^verbatim>\<open>for (unsigned int i = 0; i < yuyv.total(); i += 2)\<close>. When \<^verbatim>\<open>i += 2\<close> wraps, the
  counter is back at its start below the bound with the same planes to read, and the loop
  (entered at \<open>i = 0\<close>) repeats its first pass for ever.
\<close>

function yuyv_loop :: "u8 list \<Rightarrow> u8 list \<Rightarrow> u8 list \<Rightarrow> nat \<Rightarrow> nat \<Rightarrow> u8 list \<Rightarrow> failure + u8 list" where
  "yuyv_loop ydata udata vdata n i outdata =
     (if i < n then
        (case yuyv_pair ydata udata vdata i outdata of
           Inl e \<Rightarrow> Inl e
         | Inr outdata' \<Rightarrow>
             if i + 2 < 4294967296 then yuyv_loop ydata udata vdata n (i + 2) outdata'
             else Inl Nontermination)
      else Inr outdata)"
  by pat_completeness auto
termination
  by (relation "measure (\<lambda>(ydata, udata, vdata, n, i, outdata). n - i)") auto

declare yuyv_loop.simps [simp del]

text \<open>
  \<^verbatim>\<open>cv::Mat yuyv(tmp.rows, tmp.cols, CV_8UC2)\<close> allocates without initialising; the model
  starts from zeros, and every byte is overwritten when the loop completes. \<^verbatim>\<open>yuv[0]\<close>,
  \<^verbatim>\<open>yuv[1]\<close>, \<^verbatim>\<open>yuv[2]\<close> index a \<^verbatim>\<open>std::vector\<close> without a check.
\<close>

definition convert_rgb_to_yuyv :: "(Mat \<Rightarrow> failure + Mat) \<Rightarrow> Mat \<Rightarrow> failure + Mat" where
  "convert_rgb_to_yuyv cvtColor input =
     (case cvtColor input of
        Inl e \<Rightarrow> Inl e
      | Inr tmp \<Rightarrow>
          let yuv = cv_split tmp;
              yuyv = zeros (rows tmp) (cols tmp) CV_8U 2 in
          if length yuv < 3 then Inl OutOfBounds
          else
            (case yuyv_loop (data (yuv ! 0)) (data (yuv ! 1)) (data (yuv ! 2))
                    (total yuyv) 0 (data yuyv) of
               Inl e \<Rightarrow> Inl e
             | Inr outdata \<Rightarrow> Inr (yuyv\<lparr>data := outdata\<rparr>)))"

section \<open>The FourCC resolver\<close>

text \<open>
  Characters are bytes. \<^verbatim>\<open>::toupper\<close> in the default C locale maps \<^verbatim>\<open>a\<close>..\<^verbatim>\<open>z\<close> to
  \<^verbatim>\<open>A\<close>..\<^verbatim>\<open>Z\<close> and leaves every other byte as it is; the result is stored as a
  \<^verbatim>\<open>uint8_t\<close>, so a byte above 127 comes back as the same byte.
\<close>

definition toupper :: "char \<Rightarrow> u8" where
  "toupper c = (let n = (of_char c :: nat) in
                if 97 \<le> n \<and> n \<le> 122 then of_nat (n - 32) else of_nat n)"

text \<open>
  \<^verbatim>\<open>cv::VideoWriter::fourcc(c1, c2, c3, c4)\<close> is the library's
  \<^verbatim>\<open>(c1 & 255) + ((c2 & 255) << 8) + ((c3 & 255) << 16) + ((c4 & 255) << 24)\<close>.
\<close>

definition cv_fourcc :: "u8 \<Rightarrow> u8 \<Rightarrow> u8 \<Rightarrow> u8 \<Rightarrow> u32" where
  "cv_fourcc c1 c2 c3 c4 =
     ucast c1 + push_bit 8 (ucast c2) + push_bit 16 (ucast c3) + push_bit 24 (ucast c4)"

text \<open>
  \<^verbatim>\<open>for (size_t i = 0; i < in.size(); ++i) a[i] = ::toupper(in[i]);\<close> The parameter
  \<^verbatim>\<open>in\<close> is written \<open>inp\<close>. The loop runs only where \<^verbatim>\<open>in.size() <= 4\<close>, so every
  index is inside the array.
\<close>

function fourcc_fill :: "string \<Rightarrow> nat \<Rightarrow> u8 list \<Rightarrow> u8 list" where
  "fourcc_fill inp i a =
     (if i < length inp then fourcc_fill inp (i + 1) (a[i := toupper (inp ! i)]) else a)"
  by pat_completeness auto
termination
  by (relation "measure (\<lambda>(inp, i, a). length inp - i)") auto

declare fourcc_fill.simps [simp del]

text \<open>
  \<^verbatim>\<open>std::stoi(in, nullptr, 16)\<close> is \<^verbatim>\<open>strtol\<close> with base 16 and a range check: leading
  white space is skipped, one sign is accepted, then an optional \<^verbatim>\<open>0x\<close> that a
  hexadecimal digit follows, then the longest run of hexadecimal digits. With no digit
  read it throws \<^verbatim>\<open>std::invalid_argument\<close>; with a value outside \<^verbatim>\<open>int\<close> it throws
  \<^verbatim>\<open>std::out_of_range\<close>. Characters after the digits are ignored. The model computes
  the value of the digits exactly and then tests the range of \<^verbatim>\<open>int\<close>; a run of digits
  beyond \<^verbatim>\<open>long\<close>, where \<^verbatim>\<open>strtol\<close> reports \<^verbatim>\<open>ERANGE\<close>, ends in the same exception.
\<close>

definition c_isspace :: "char \<Rightarrow> bool" where
  "c_isspace c = (let n = (of_char c :: nat) in n = 32 \<or> (9 \<le> n \<and> n \<le> 13))"

definition xdigit_val :: "char \<Rightarrow> nat option" where
  "xdigit_val c = (let n = (of_char c :: nat) in
     if 48 \<le> n \<and> n \<le> 57 then Some (n - 48)
     else if 97 \<le> n \<and> n \<le> 102 then Some (n - 87)
     else if 65 \<le> n \<and> n \<le> 70 then Some (n - 55)
     else None)"

definition is_xdigit :: "char \<Rightarrow> bool" where
  "is_xdigit c = (xdigit_val c \<noteq> None)"

fun strip_0x :: "string \<Rightarrow> string" where
  "strip_0x (c0 # c1 # c2 # cs) =
     (if c0 = CHR ''0'' \<and> (c1 = CHR ''x'' \<or> c1 = CHR ''X'') \<and> is_xdigit c2
      then c2 # cs else c0 # c1 # c2 # cs)"
| "strip_0x cs = cs"

definition hex_value :: "string \<Rightarrow> nat" where
  "hex_value ds = foldl (\<lambda>acc c. 16 * acc + (case xdigit_val c of Some d \<Rightarrow> d | None \<Rightarrow> 0)) 0 ds"

definition stoi16 :: "string \<Rightarrow> failure + int" where
  "stoi16 str =
     (let s1 = dropWhile c_isspace str;
          neg = (s1 \<noteq> [] \<and> hd s1 = CHR ''-'');
          s2 = (if s1 \<noteq> [] \<and> (hd s1 = CHR ''-'' \<or> hd s1 = CHR ''+'') then tl s1 else s1);
          ds = takeWhile is_xdigit (strip_0x s2)
      in if ds = [] then Inl Std_invalid_argument
         else
           let v = int (hex_value ds); r = (if neg then - v else v) in
           if r < - 2147483648 \<or> 2147483647 < r then Inl Std_out_of_range else Inr r)"

text \<open>The function returns \<^verbatim>\<open>int\<close>; its 32 bits are the code.\<close>

definition fourCcFromString :: "string \<Rightarrow> failure + u32" where
  "fourCcFromString inp =
     (if inp = [] then Inr 0
      else if length inp \<le> 4 then
        let a = fourcc_fill inp 0 [32, 32, 32, 32] in
        Inr (cv_fourcc (a ! 0) (a ! 1) (a ! 2) (a ! 3))
      else if length inp = 8 then
        (case stoi16 inp of Inl e \<Rightarrow> Inl e | Inr v \<Rightarrow> Inr (word_of_int v))
      else Inr 0)"

section \<open>The resource path resolver\<close>

text \<open>
  \<^verbatim>\<open>resolve_path\<close> reads the process environment, probes the file system and reads the
  link \<^verbatim>\<open>/proc/self/exe\<close>. The world it runs in is a record: \<open>getenv\<close> gives a
  variable's value (\<open>None\<close> for the null pointer of an unset variable),
  \<open>ifstream_good p\<close> says whether \<^verbatim>\<open>std::ifstream(p).good()\<close> holds, and
  \<open>readlink_exe\<close> is the target of the link (\<open>None\<close> when \<^verbatim>\<open>readlink\<close> fails). The
  build-time macro \<^verbatim>\<open>INSTALL_PREFIX\<close> is a parameter. The function returns, besides its
  result, the list of the accesses it made, in order.

  The record also says which paths name a regular file (\<open>regular_file\<close>). The source
  never asks: opening the path read-only is its only probe, and a directory or a device
  opens as a regular file does.
\<close>

record world =
  getenv :: "string \<Rightarrow> string option"
  ifstream_good :: "string \<Rightarrow> bool"
  regular_file :: "string \<Rightarrow> bool"
  readlink_exe :: "string option"

datatype event = Getenv string | Open string | Readlink

type_synonym 'a traced = "event list \<times> 'a"

definition after :: "event list \<Rightarrow> 'a traced \<Rightarrow> 'a traced" where
  "after es r = (es @ fst r, snd r)"

text \<open>
  The regular expression \<^verbatim>\<open>^[[:alpha:]][[:alnum:]+-.]{1,}:.*$\<close>, matched against the whole
  string. Inside the bracket, \<^verbatim>\<open>+-.\<close> is the range from \<^verbatim>\<open>+\<close> to \<^verbatim>\<open>.\<close> (codes 43 to
  46). The colon is not in the bracket, so the run of bracket characters must end at the
  first colon. The dot of the ECMAScript grammar matches every character but line feed
  and carriage return.
\<close>

definition c_isalpha :: "char \<Rightarrow> bool" where
  "c_isalpha c = (let n = (of_char c :: nat) in (65 \<le> n \<and> n \<le> 90) \<or> (97 \<le> n \<and> n \<le> 122))"

definition c_isalnum :: "char \<Rightarrow> bool" where
  "c_isalnum c = (let n = (of_char c :: nat) in c_isalpha c \<or> (48 \<le> n \<and> n \<le> 57))"

definition scheme_char :: "char \<Rightarrow> bool" where
  "scheme_char c = (let n = (of_char c :: nat) in c_isalnum c \<or> (43 \<le> n \<and> n \<le> 46))"

definition regex_dot :: "char \<Rightarrow> bool" where
  "regex_dot c = (c \<noteq> CHR 0x0A \<and> c \<noteq> CHR 0x0D)"

fun uri_scheme_match :: "string \<Rightarrow> bool" where
  "uri_scheme_match [] = False"
| "uri_scheme_match (c # cs) =
     (c_isalpha c \<and> takeWhile scheme_char cs \<noteq> [] \<and>
      (case dropWhile scheme_char cs of
         [] \<Rightarrow> False
       | d # ds \<Rightarrow> d = CHR '':'' \<and> list_all regex_dot ds))"

text \<open>
  \<^verbatim>\<open>while (std::getline(bsp, result, ':'))\<close>: the fields between colons, in order; the
  stream fails, and the loop ends, when nothing is left to read, so an empty value and
  the empty field after a final colon give no iteration.
\<close>

function getline_fields :: "string \<Rightarrow> string list" where
  "getline_fields s =
     (if s = [] then []
      else
        (case dropWhile (\<lambda>c. c \<noteq> CHR '':'') s of
           [] \<Rightarrow> [s]
         | d # rest \<Rightarrow> takeWhile (\<lambda>c. c \<noteq> CHR '':'') s # getline_fields rest))"
  by pat_completeness auto
termination
proof (relation "measure length")
  fix s :: string and d rest
  assume "dropWhile (\<lambda>c. c \<noteq> CHR '':'') s = d # rest"
  then have "length (d # rest) \<le> length s"
    using length_dropWhile_le [of "\<lambda>c. c \<noteq> CHR '':''" s] by simp
  then show "(rest, s) \<in> measure length" by simp
qed simp

declare getline_fields.simps [simp del]

text \<open>The body of that loop, over the fields: the first root with a hit wins.\<close>

fun search_roots :: "world \<Rightarrow> string \<Rightarrow> string \<Rightarrow> string list \<Rightarrow> (string option) traced" where
  "search_roots w type provided [] = ([], None)"
| "search_roots w type provided (root # roots) =
     (let result = root @ ''/'' @ type @ ''/'' @ provided in
      if ifstream_good w result then ([Open result], Some result)
      else after [Open result] (search_roots w type provided roots))"

text \<open>
  \<^verbatim>\<open>std::string::rfind(c, pos)\<close>: the last index at or before \<open>pos\<close> that holds \<open>c\<close>.
  Positions are \<^verbatim>\<open>size_t\<close>; \<^verbatim>\<open>npos\<close> is its largest value, and \<^verbatim>\<open>pos - 1\<close> at
  \<open>pos = 0\<close> wraps to it. The result \<open>None\<close> stands for \<^verbatim>\<open>npos\<close>.
\<close>

definition npos :: nat where
  "npos = 18446744073709551615"

definition size_t_pred :: "nat \<Rightarrow> nat" where
  "size_t_pred pos = (if pos = 0 then npos else pos - 1)"

definition rfind :: "string \<Rightarrow> char \<Rightarrow> nat \<Rightarrow> nat option" where
  "rfind s c pos =
     (if s = [] then None
      else find (\<lambda>i. s ! i = c) (rev [0..<Suc (min (length s - 1) pos)]))"

text \<open>
  Tier 5 and the development folder: the link target is read into \<^verbatim>\<open>char binloc[1024]\<close>
  (\<^verbatim>\<open>readlink\<close> truncates to the buffer and returns the count), terminated, and taken as
  a C string.
\<close>

definition tier_exe :: "world \<Rightarrow> string \<Rightarrow> string \<Rightarrow> (failure + string option) traced" where
  "tier_exe w type provided =
     (case readlink_exe w of
        None \<Rightarrow> ([Readlink], Inr None)
      | Some target \<Rightarrow>
          let n = min (length target) 1024 in
          if n < 1 \<or> n \<ge> 1024 then ([Readlink], Inr None)
          else
            let binloc = takeWhile (\<lambda>c. c \<noteq> CHR 0x00) (take n target) in
            (case rfind binloc CHR ''/'' npos of
               None \<Rightarrow> ([Readlink], Inr None)
             | Some pos0 \<Rightarrow>
                 (case rfind binloc CHR ''/'' (size_t_pred pos0) of
                    None \<Rightarrow> ([Readlink], Inr None)
                  | Some pos \<Rightarrow>
                      let result = take pos binloc @ ''/share/backscrub/'' @ type @ ''/'' @ provided in
                      if ifstream_good w result then ([Readlink, Open result], Inr (Some result))
                      else
                        let result' = take pos result @ ''/'' @ type @ ''/'' @ provided in
                        if ifstream_good w result'
                        then ([Readlink, Open result, Open result'], Inr (Some result'))
                        else ([Readlink, Open result, Open result'], Inr None))))"

text \<open>Tier 4: the install prefix.\<close>

definition tier_prefix :: "string \<Rightarrow> world \<Rightarrow> string \<Rightarrow> string \<Rightarrow> (failure + string option) traced" where
  "tier_prefix INSTALL_PREFIX w type provided =
     (let result = INSTALL_PREFIX @ ''/share/backscrub/'' @ type @ ''/'' @ provided in
      if ifstream_good w result then ([Open result], Inr (Some result))
      else after [Open result] (tier_exe w type provided))"

text \<open>
  Tier 3:
  \<^verbatim>\<open>result = getenv("XDG_DATA_HOME") ? getenv("XDG_DATA_HOME") : std::string() + getenv("HOME") + "/.local/share";\<close>
  The value of \<^verbatim>\<open>HOME\<close> is appended with no test for the null pointer.
\<close>

definition tier_xdg :: "string \<Rightarrow> world \<Rightarrow> string \<Rightarrow> string \<Rightarrow> (failure + string option) traced" where
  "tier_xdg INSTALL_PREFIX w type provided =
     (case getenv w ''XDG_DATA_HOME'' of
        Some xdg \<Rightarrow>
          let result = xdg @ ''/backscrub/'' @ type @ ''/'' @ provided in
          after [Getenv ''XDG_DATA_HOME'', Getenv ''XDG_DATA_HOME'']
            (if ifstream_good w result then ([Open result], Inr (Some result))
             else after [Open result] (tier_prefix INSTALL_PREFIX w type provided))
      | None \<Rightarrow>
          (case getenv w ''HOME'' of
             None \<Rightarrow> ([Getenv ''XDG_DATA_HOME'', Getenv ''HOME''], Inl NullPointer)
           | Some home \<Rightarrow>
               let result = (home @ ''/.local/share'') @ ''/backscrub/'' @ type @ ''/'' @ provided in
               after [Getenv ''XDG_DATA_HOME'', Getenv ''HOME'']
                 (if ifstream_good w result then ([Open result], Inr (Some result))
                  else after [Open result] (tier_prefix INSTALL_PREFIX w type provided))))"

text \<open>Tier 2: \<^verbatim>\<open>BACKSCRUB_PATH\<close>, read once for the test and once for the stream.\<close>

definition tier_path :: "string \<Rightarrow> world \<Rightarrow> string \<Rightarrow> string \<Rightarrow> (failure + string option) traced" where
  "tier_path INSTALL_PREFIX w type provided =
     (case getenv w ''BACKSCRUB_PATH'' of
        None \<Rightarrow> after [Getenv ''BACKSCRUB_PATH''] (tier_xdg INSTALL_PREFIX w type provided)
      | Some bsp \<Rightarrow>
          after [Getenv ''BACKSCRUB_PATH'', Getenv ''BACKSCRUB_PATH'']
            (case search_roots w type provided (getline_fields bsp) of
               (es, Some result) \<Rightarrow> (es, Inr (Some result))
             | (es, None) \<Rightarrow> after es (tier_xdg INSTALL_PREFIX w type provided)))"

text \<open>
  The head of the function: the scheme test, the literal path, and the stop at a path
  separator.
\<close>

definition resolve_path :: "string \<Rightarrow> world \<Rightarrow> string \<Rightarrow> string \<Rightarrow> (failure + string option) traced" where
  "resolve_path INSTALL_PREFIX w provided type =
     (if uri_scheme_match provided then ([], Inr (Some provided))
      else if ifstream_good w provided then ([Open provided], Inr (Some provided))
      else if CHR ''/'' \<in> set provided then ([Open provided], Inr None)
      else after [Open provided] (tier_path INSTALL_PREFIX w type provided))"

section \<open>Vocabulary of the statements\<close>

text \<open>
  The definitions of this section are not translations of source code: they are the
  terms in which the properties below are stated, and the closed forms the loops are
  proved equal to.
\<close>

subsection \<open>Pixels\<close>

text \<open>Channel \<open>c\<close> of pixel \<open>p\<close> of an 8-bit matrix, pixels counted row by row.\<close>

definition at :: "Mat \<Rightarrow> nat \<Rightarrow> nat \<Rightarrow> u8" where
  "at m p c = data m ! (p * channels m + c)"

subsection \<open>Alpha compositor\<close>

text \<open>
  Valid input of the compositor: three well-formed matrices that pass the asserts, that
  is, equal rows and columns, \<open>a\<close> and \<open>b\<close> of type \<^verbatim>\<open>CV_8UC3\<close>, the mask of type
  \<^verbatim>\<open>CV_8UC1\<close>.
\<close>

definition blend_inputs_ok :: "Mat \<Rightarrow> Mat \<Rightarrow> Mat \<Rightarrow> bool" where
  "blend_inputs_ok a b msk = (mat_ok a \<and> mat_ok b \<and> mat_ok msk \<and> blend_asserts a b msk)"

text \<open>The blend of one channel byte as a number, before the cast to a byte.\<close>

definition blend_formula :: "u8 \<Rightarrow> u8 \<Rightarrow> u8 \<Rightarrow> int" where
  "blend_formula a b w = c_div (uint a * uint w + uint b * (255 - uint w)) 255"

text \<open>The state after one pixel, and the whole output buffer, in closed form.\<close>

definition blend3 :: "u8 list \<Rightarrow> u8 list \<Rightarrow> u8 list \<Rightarrow> blend_state \<Rightarrow> blend_state" where
  "blend3 A B M s =
     \<lparr>aptr = aptr s + 3, bptr = bptr s + 3, mptr = mptr s + 1, optr = optr s + 3,
      obuf = (obuf s)
        [optr s := to_u8 (blend_formula (A ! aptr s) (B ! bptr s) (M ! mptr s)),
         optr s + 1 := to_u8 (blend_formula (A ! (aptr s + 1)) (B ! (bptr s + 1)) (M ! mptr s)),
         optr s + 2 := to_u8 (blend_formula (A ! (aptr s + 2)) (B ! (bptr s + 2)) (M ! mptr s))]\<rparr>"

definition blend_bytes :: "u8 list \<Rightarrow> u8 list \<Rightarrow> u8 list \<Rightarrow> nat \<Rightarrow> u8 list" where
  "blend_bytes A B M npix =
     map (\<lambda>j. to_u8 (blend_formula (A ! j) (B ! j) (M ! (j div 3)))) [0..<3 * npix]"

text \<open>The mask \<open>255 - m\<close>: every weight replaced by its complement.\<close>

definition mask_negate :: "Mat \<Rightarrow> Mat" where
  "mask_negate msk = msk\<lparr>data := map (\<lambda>w. 255 - w) (data msk)\<rparr>"

subsection \<open>Pixel format converter\<close>

text \<open>
  What the statements about the converter assume of the library's colour conversion: on
  this input it returned \<open>tmp\<close>, a non-empty well-formed \<^verbatim>\<open>CV_8UC3\<close> matrix with the
  rows and columns of the input. (The library rejects an empty input.)
\<close>

definition cvtColor_ok :: "(Mat \<Rightarrow> failure + Mat) \<Rightarrow> Mat \<Rightarrow> Mat \<Rightarrow> bool" where
  "cvtColor_ok cvtColor input tmp =
     (cvtColor input = Inr tmp \<and> rows tmp = rows input \<and> cols tmp = cols input \<and>
      is_8UC3 tmp \<and> mat_ok tmp \<and> 0 < rows tmp * cols tmp)"

text \<open>The flattened plane \<open>k\<close> of the converted image: 0 is Y, 1 is U, 2 is V.\<close>

definition plane :: "Mat \<Rightarrow> nat \<Rightarrow> u8 list" where
  "plane tmp k = data (cv_split tmp ! k)"

definition avg2 :: "u8 \<Rightarrow> u8 \<Rightarrow> int" where
  "avg2 x y = c_div (uint x + uint y) 2"

subsection \<open>FourCC resolver\<close>

text \<open>
  Right-padding with the space character (code 32) to four bytes, and byte \<open>k\<close> of a
  32-bit code, counted from the least significant: the order in which the library's tag
  constructor takes its four characters.
\<close>

definition pad4 :: "u8 list \<Rightarrow> u8 list" where
  "pad4 bs = bs @ replicate (4 - length bs) 32"

definition code_byte :: "u32 \<Rightarrow> nat \<Rightarrow> u8" where
  "code_byte w k = ucast (drop_bit (8 * k) w)"

text \<open>
  What \<^verbatim>\<open>std::stoi\<close> reads of a string: whether a minus sign stands after the leading
  white space, the run of hexadecimal digits after white space, sign and prefix, and the
  signed value of that run.
\<close>

definition stoi16_negative :: "string \<Rightarrow> bool" where
  "stoi16_negative str =
     (dropWhile c_isspace str \<noteq> [] \<and> hd (dropWhile c_isspace str) = CHR ''-'')"

definition stoi16_digits :: "string \<Rightarrow> string" where
  "stoi16_digits str =
     (let s1 = dropWhile c_isspace str;
          s2 = (if s1 \<noteq> [] \<and> (hd s1 = CHR ''-'' \<or> hd s1 = CHR ''+'') then tl s1 else s1)
      in takeWhile is_xdigit (strip_0x s2))"

definition stoi16_value :: "string \<Rightarrow> int" where
  "stoi16_value str =
     (if stoi16_negative str then - int (hex_value (stoi16_digits str))
      else int (hex_value (stoi16_digits str)))"

definition in_int_range :: "int \<Rightarrow> bool" where
  "in_int_range v = (- 2147483648 \<le> v \<and> v \<le> 2147483647)"

subsection \<open>Example inputs\<close>

text \<open>
  Two images of one row and two pixels, a mask for them, an image of two rows, an image
  of a single pixel, and a colour conversion that returns its input.
\<close>

definition ex_a :: Mat where
  "ex_a = \<lparr>rows = 1, cols = 2, depth = CV_8U, channels = 3, data = [200, 100, 0, 10, 20, 30]\<rparr>"

definition ex_b :: Mat where
  "ex_b = \<lparr>rows = 1, cols = 2, depth = CV_8U, channels = 3, data = [100, 200, 255, 250, 240, 230]\<rparr>"

definition ex_m :: Mat where
  "ex_m = \<lparr>rows = 1, cols = 2, depth = CV_8U, channels = 1, data = [255, 100]\<rparr>"

definition ex_tall :: Mat where
  "ex_tall = \<lparr>rows = 2, cols = 1, depth = CV_8U, channels = 3, data = [1, 2, 3, 4, 5, 6]\<rparr>"

definition ex_px :: Mat where
  "ex_px = \<lparr>rows = 1, cols = 1, depth = CV_8U, channels = 3, data = [16, 128, 130]\<rparr>"

definition ex_cvt :: "Mat \<Rightarrow> failure + Mat" where
  "ex_cvt m = Inr m"

text \<open>
  Three worlds for the resolver: one where every variable is set and every path but
  \<^verbatim>\<open>sub/foo.dat\<close> is a file that opens, one with no variable set and no file, and one
  whose only entry is the directory \<^verbatim>\<open>sub/dir\<close>, which opens and is no regular file.
\<close>

definition ex_world_full :: world where
  "ex_world_full =
     \<lparr>getenv = (\<lambda>v. Some ''/opt/data''),
      ifstream_good = (\<lambda>p. p \<noteq> ''sub/foo.dat''),
      regular_file = (\<lambda>p. p \<noteq> ''sub/foo.dat''),
      readlink_exe = Some ''/usr/local/bin/backscrub''\<rparr>"

definition ex_world_bare :: world where
  "ex_world_bare =
     \<lparr>getenv = (\<lambda>v. None), ifstream_good = (\<lambda>p. False), regular_file = (\<lambda>p. False),
      readlink_exe = None\<rparr>"

definition ex_world_dir :: world where
  "ex_world_dir =
     \<lparr>getenv = (\<lambda>v. None), ifstream_good = (\<lambda>p. p = ''sub/dir''),
      regular_file = (\<lambda>p. False), readlink_exe = None\<rparr>"

section \<open>Properties of the alpha compositor\<close>

subsection \<open>Arithmetic of one channel\<close>

lemma c_div_nonneg: "0 \<le> a \<Longrightarrow> 0 < b \<Longrightarrow> c_div a b = a div b"
  by (cases "a = 0") (simp_all add: c_div_def)

lemma uint_u8_bounds: "0 \<le> uint (x::u8) \<and> uint x \<le> 255"
  using uint_lt2p [of x] by simp

lemma blend_formula_range:
  "min (uint a) (uint b) \<le> blend_formula a b w \<and> blend_formula a b w \<le> max (uint a) (uint b)"
proof -
  define x y k where "x = uint a" and "y = uint b" and "k = uint w"
  have bx: "0 \<le> x" "x \<le> 255" and "by": "0 \<le> y" "y \<le> 255" and bk: "0 \<le> k" "k \<le> 255"
    using uint_u8_bounds [of a] uint_u8_bounds [of b] uint_u8_bounds [of w]
    by (simp_all add: x_def y_def k_def)
  have nn: "0 \<le> x * k + y * (255 - k)" using bx "by" bk by simp
  have eq: "blend_formula a b w = (x * k + y * (255 - k)) div 255"
    using nn by (simp add: blend_formula_def c_div_nonneg x_def y_def k_def)
  have lo: "min x y * 255 \<le> x * k + y * (255 - k)"
  proof -
    have "min x y * k \<le> x * k" using bk by (intro mult_right_mono) simp_all
    moreover have "min x y * (255 - k) \<le> y * (255 - k)" using bk by (intro mult_right_mono) simp_all
    ultimately show ?thesis by (simp add: algebra_simps)
  qed
  have hi: "x * k + y * (255 - k) \<le> max x y * 255"
  proof -
    have "x * k \<le> max x y * k" using bk by (intro mult_right_mono) simp_all
    moreover have "y * (255 - k) \<le> max x y * (255 - k)" using bk by (intro mult_right_mono) simp_all
    ultimately show ?thesis by (simp add: algebra_simps)
  qed
  have "min x y \<le> (x * k + y * (255 - k)) div 255"
    using lo zdiv_mono1 [of "min x y * 255" "x * k + y * (255 - k)" 255] by simp
  moreover have "(x * k + y * (255 - k)) div 255 \<le> max x y"
    using hi zdiv_mono1 [of "x * k + y * (255 - k)" "max x y * 255" 255] by simp
  ultimately show ?thesis using eq by (simp add: x_def y_def)
qed

lemma blend_formula_u8: "uint (to_u8 (blend_formula a b w)) = blend_formula a b w"
proof -
  have lo: "0 \<le> min (uint a) (uint b)" by simp
  have hi: "max (uint a) (uint b) \<le> 255"
    using uint_lt2p [of a] uint_lt2p [of b] by simp
  have "0 \<le> blend_formula a b w" "blend_formula a b w \<le> 255"
    using blend_formula_range [of a b w] lo hi by linarith+
  then show ?thesis
    by (simp add: to_u8_def uint_word_of_int)
qed

subsection \<open>The loop\<close>

text \<open>
  With every offset inside its buffer, a channel line and a pixel step succeed; the loop
  invariant is that all four pointers stand at the start of pixel \<open>pix\<close>.
\<close>

lemma blend_channel_ok:
  assumes "aptr s < length A" "bptr s < length B" "optr s < length (obuf s)"
  shows "blend_channel A B (uint w) (255 - uint w) s =
           Inr (s\<lparr>aptr := aptr s + 1, bptr := bptr s + 1, optr := optr s + 1,
                   obuf := (obuf s)[optr s := to_u8 (blend_formula (A ! aptr s) (B ! bptr s) w)]\<rparr>)"
  using assms by (simp add: blend_channel_def rd_def wr_def blend_formula_def)

lemma blend_pixel_ok:
  assumes "mptr s < length M" "aptr s + 2 < length A" "bptr s + 2 < length B"
    "optr s + 2 < length (obuf s)"
  shows "blend_pixel A B M s = Inr (blend3 A B M s)"
  using assms
  by (simp add: blend_pixel_def rd_def blend_channel_ok Let_def blend3_def numeral_3_eq_3 add.commute)

lemma blend_loop_ok:
  assumes "npix - pix = n" "pix \<le> npix"
    "aptr s = 3 * pix" "bptr s = 3 * pix" "mptr s = pix" "optr s = 3 * pix"
    "length A = 3 * npix" "length B = 3 * npix" "length M = npix" "length (obuf s) = 3 * npix"
  shows "\<exists>s'. blend_loop A B M pix npix s = Inr s' \<and> length (obuf s') = 3 * npix \<and>
           (\<forall>j<3 * pix. obuf s' ! j = obuf s ! j) \<and>
           (\<forall>p c. pix \<le> p \<longrightarrow> p < npix \<longrightarrow> c < 3 \<longrightarrow>
              obuf s' ! (3 * p + c) = to_u8 (blend_formula (A ! (3 * p + c)) (B ! (3 * p + c)) (M ! p)))"
  using assms
proof (induction n arbitrary: pix s)
  case 0
  then have "pix = npix" by simp
  then show ?case by (simp add: blend_loop.simps "0.prems")
next
  case (Suc n)
  then have lt: "pix < npix" by simp
  let ?s1 = "blend3 A B M s"
  have step: "blend_pixel A B M s = Inr ?s1"
    using Suc.prems lt by (intro blend_pixel_ok) simp_all
  have len1: "length (obuf ?s1) = 3 * npix" using Suc.prems by (simp add: blend3_def)
  have "\<exists>s'. blend_loop A B M (pix + 1) npix ?s1 = Inr s' \<and> length (obuf s') = 3 * npix \<and>
           (\<forall>j<3 * (pix + 1). obuf s' ! j = obuf ?s1 ! j) \<and>
           (\<forall>p c. pix + 1 \<le> p \<longrightarrow> p < npix \<longrightarrow> c < 3 \<longrightarrow>
              obuf s' ! (3 * p + c) = to_u8 (blend_formula (A ! (3 * p + c)) (B ! (3 * p + c)) (M ! p)))"
    using Suc.prems lt len1 by (intro Suc.IH) (simp_all add: blend3_def)
  then obtain s' where s': "blend_loop A B M (pix + 1) npix ?s1 = Inr s'"
    "length (obuf s') = 3 * npix"
    "\<And>j. j < 3 * (pix + 1) \<Longrightarrow> obuf s' ! j = obuf ?s1 ! j"
    "\<And>p c. pix + 1 \<le> p \<Longrightarrow> p < npix \<Longrightarrow> c < 3 \<Longrightarrow>
              obuf s' ! (3 * p + c) = to_u8 (blend_formula (A ! (3 * p + c)) (B ! (3 * p + c)) (M ! p))"
    by blast
  have run: "blend_loop A B M pix npix s = Inr s'"
    using lt step s'(1) by (subst blend_loop.simps) simp
  have old: "obuf s' ! j = obuf s ! j" if "j < 3 * pix" for j
  proof -
    have "obuf s' ! j = obuf ?s1 ! j" using that by (intro s'(3)) simp
    also have "\<dots> = obuf s ! j" using that Suc.prems by (simp add: blend3_def)
    finally show ?thesis .
  qed
  have cur: "obuf s' ! (3 * pix + c) = to_u8 (blend_formula (A ! (3 * pix + c)) (B ! (3 * pix + c)) (M ! pix))"
    if "c < 3" for c
  proof -
    have "obuf s' ! (3 * pix + c) = obuf ?s1 ! (3 * pix + c)" using that by (intro s'(3)) simp
    also have "\<dots> = to_u8 (blend_formula (A ! (3 * pix + c)) (B ! (3 * pix + c)) (M ! pix))"
    proof -
      from that have "c = 0 \<or> c = 1 \<or> c = 2" by arith
      then show ?thesis using Suc.prems lt by (auto simp: blend3_def)
    qed
    finally show ?thesis .
  qed
  have new: "obuf s' ! (3 * p + c) = to_u8 (blend_formula (A ! (3 * p + c)) (B ! (3 * p + c)) (M ! p))"
    if "pix \<le> p" "p < npix" "c < 3" for p c
  proof (cases "p = pix")
    case True
    then show ?thesis using cur that by simp
  next
    case False
    then show ?thesis using that by (intro s'(4)) simp_all
  qed
  show ?case using run s'(2) old new by blast
qed

subsection \<open>The whole function in closed form\<close>

lemma blend_loop_bytes:
  assumes "length A = 3 * npix" "length B = 3 * npix" "length M = npix"
  shows "\<exists>s'. blend_loop A B M 0 npix
            \<lparr>aptr = 0, bptr = 0, mptr = 0, optr = 0, obuf = replicate (3 * npix) 0\<rparr> = Inr s'
          \<and> obuf s' = blend_bytes A B M npix"
proof -
  let ?s = "\<lparr>aptr = 0, bptr = 0, mptr = 0, optr = 0, obuf = replicate (3 * npix) (0::u8)\<rparr>"
  obtain s' where s': "blend_loop A B M 0 npix ?s = Inr s'" "length (obuf s') = 3 * npix"
    "\<And>p c. p < npix \<Longrightarrow> c < 3 \<Longrightarrow>
       obuf s' ! (3 * p + c) = to_u8 (blend_formula (A ! (3 * p + c)) (B ! (3 * p + c)) (M ! p))"
    using blend_loop_ok [of npix 0 npix ?s A B M] assms by auto
  have "obuf s' = blend_bytes A B M npix"
  proof (rule nth_equalityI)
    show "length (obuf s') = length (blend_bytes A B M npix)"
      using s'(2) by (simp add: blend_bytes_def)
  next
    fix j assume "j < length (obuf s')"
    then have j: "j < 3 * npix" using s'(2) by simp
    then have "j div 3 < npix" "j mod 3 < 3" by simp_all
    then have "obuf s' ! (3 * (j div 3) + j mod 3) =
       to_u8 (blend_formula (A ! (3 * (j div 3) + j mod 3)) (B ! (3 * (j div 3) + j mod 3)) (M ! (j div 3)))"
      by (rule s'(3))
    then show "obuf s' ! j = blend_bytes A B M npix ! j"
      using j by (simp add: blend_bytes_def)
  qed
  then show ?thesis using s'(1) by blast
qed

lemma alpha_blend_closed_form:
  assumes "blend_inputs_ok a b msk"
  shows "alpha_blend a b msk =
           Inr \<lparr>rows = rows a, cols = cols a, depth = CV_8U, channels = 3,
                data = blend_bytes (data a) (data b) (data msk) (rows a * cols a)\<rparr>"
proof -
  from assms have as: "blend_asserts a b msk" and ok: "mat_ok a" "mat_ok b" "mat_ok msk"
    by (simp_all add: blend_inputs_ok_def)
  let ?n = "rows a * cols a"
  have la: "length (data a) = 3 * ?n" and lb: "length (data b) = 3 * ?n"
    and lm: "length (data msk) = ?n" and fit: "\<not> ?n > INT_MAX"
    using as ok by (simp_all add: blend_asserts_def mat_ok_def is_8UC3_def is_8UC1_def)
  obtain s' where s': "blend_loop (data a) (data b) (data msk) 0 ?n
            \<lparr>aptr = 0, bptr = 0, mptr = 0, optr = 0, obuf = replicate (3 * ?n) 0\<rparr> = Inr s'"
     "obuf s' = blend_bytes (data a) (data b) (data msk) ?n"
    using blend_loop_bytes [OF la lb lm] by blast
  have z: "data (zeros (rows a) (cols a) (depth a) (channels a)) = replicate (3 * ?n) 0"
    using as by (simp add: zeros_def blend_asserts_def is_8UC3_def mult.commute)
  show ?thesis
    using as fit s' z
    by (simp add: alpha_blend_def Let_def) (simp add: zeros_def blend_asserts_def is_8UC3_def)
qed

text \<open>The function evaluated on the example images.\<close>

lemma alpha_blend_example:
  "alpha_blend ex_a ex_b ex_m =
     Inr \<lparr>rows = 1, cols = 2, depth = CV_8U, channels = 3, data = [200, 100, 0, 155, 153, 151]\<rparr>"
  by (simp add: alpha_blend_def blend_asserts_def is_8UC3_def is_8UC1_def zeros_def INT_MAX_def
      blend_loop.simps blend_pixel_def blend_channel_def rd_def wr_def to_u8_def c_div_def Let_def
      ex_a_def ex_b_def ex_m_def)
    (simp add: eval_nat_numeral)

lemma blend_bytes_nth:
  "p < npix \<Longrightarrow> c < 3 \<Longrightarrow>
   blend_bytes A B M npix ! (p * 3 + c) = to_u8 (blend_formula (A ! (p * 3 + c)) (B ! (p * 3 + c)) (M ! p))"
  by (simp add: blend_bytes_def)

lemma blend_formula_swap: "blend_formula b a (255 - w) = blend_formula a b w"
proof -
  have "uint w \<le> uint (255 :: u8)" using uint_lt2p [of w] by simp
  then have "uint (255 - w) = uint (255 :: u8) - uint w"
    by (simp only: uint_sub_lem)
  then have "uint (255 - w) = 255 - uint w" by simp
  then show ?thesis by (simp add: blend_formula_def add.commute)
qed

lemma blend_inputs_ok_swap:
  "blend_inputs_ok a b msk \<Longrightarrow> blend_inputs_ok b a (mask_negate msk)"
  by (auto simp: blend_inputs_ok_def blend_asserts_def mat_ok_def mask_negate_def is_8UC1_def)

lemma blend_bytes_swap:
  assumes "length M = npix"
  shows "blend_bytes B A (map (\<lambda>w. 255 - w) M) npix = blend_bytes A B M npix"
  unfolding blend_bytes_def
proof (rule map_cong [OF refl])
  fix j assume "j \<in> set [0..<3 * npix]"
  then have "j div 3 < length M" using assms by simp
  then show "to_u8 (blend_formula (B ! j) (A ! j) (map (\<lambda>w. 255 - w) M ! (j div 3))) =
             to_u8 (blend_formula (A ! j) (B ! j) (M ! (j div 3)))"
    by (simp add: blend_formula_swap)
qed

lemma alpha_blend_out:
  assumes "blend_inputs_ok a b msk"
  shows "\<exists>out. alpha_blend a b msk = Inr out \<and> rows out = rows a \<and> cols out = cols a \<and>
    is_8UC3 out \<and> mat_ok out \<and>
    (\<forall>p c. p < rows a * cols a \<longrightarrow> c < 3 \<longrightarrow>
       at out p c = to_u8 (blend_formula (at a p c) (at b p c) (at msk p 0)))"
proof -
  let ?out = "\<lparr>rows = rows a, cols = cols a, depth = CV_8U, channels = 3,
                data = blend_bytes (data a) (data b) (data msk) (rows a * cols a)\<rparr>"
  from assms have ch: "channels a = 3" "channels b = 3" "channels msk = 1"
    and fit: "rows a * cols a \<le> INT_MAX"
    by (simp_all add: blend_inputs_ok_def blend_asserts_def is_8UC3_def is_8UC1_def mat_ok_def)
  have 1: "alpha_blend a b msk = Inr ?out" using assms by (rule alpha_blend_closed_form)
  have 2: "mat_ok ?out" using fit by (simp add: mat_ok_def blend_bytes_def)
  have 3: "at ?out p c = to_u8 (blend_formula (at a p c) (at b p c) (at msk p 0))"
    if "p < rows a * cols a" "c < 3" for p c
    using that ch by (simp add: at_def blend_bytes_nth)
  have 4: "rows ?out = rows a" "cols ?out = cols a" "is_8UC3 ?out"
    by (simp_all add: is_8UC3_def)
  show ?thesis using 1 2 3 4 by blast
qed

subsection \<open>The claims\<close>

text \<open>
  Claim C1. For two well-formed \<^verbatim>\<open>CV_8UC3\<close> images \<open>a\<close>, \<open>b\<close> and a well-formed
  \<^verbatim>\<open>CV_8UC1\<close> mask, all of the same rows and columns, \<^verbatim>\<open>alpha_blend\<close> returns an image
  of the same size and type in which, for every pixel \<open>p\<close> and channel \<open>c\<close>,
  \<open>out[p][c] = (a[p][c] * w + b[p][c] * (255 - w)) / 255\<close> with \<open>w = mask[p]\<close>, the
  division truncating toward zero. The equation is between numbers: the cast to a byte
  loses nothing.
\<close>

theorem alpha_blend_pixel_formula:
  assumes "blend_inputs_ok a b msk"
  shows "\<exists>out. alpha_blend a b msk = Inr out \<and> rows out = rows a \<and> cols out = cols a \<and>
           is_8UC3 out \<and> mat_ok out \<and>
           (\<forall>p<rows a * cols a. \<forall>c<3.
              uint (at out p c) =
                c_div (uint (at a p c) * uint (at msk p 0)
                       + uint (at b p c) * (255 - uint (at msk p 0))) 255)"
proof -
  obtain out where out: "alpha_blend a b msk = Inr out" "rows out = rows a" "cols out = cols a"
    "is_8UC3 out" "mat_ok out"
    "\<And>p c. p < rows a * cols a \<Longrightarrow> c < 3 \<Longrightarrow>
       at out p c = to_u8 (blend_formula (at a p c) (at b p c) (at msk p 0))"
    using alpha_blend_out [OF assms] by blast
  have "uint (at out p c) =
          c_div (uint (at a p c) * uint (at msk p 0) + uint (at b p c) * (255 - uint (at msk p 0))) 255"
    if "p < rows a * cols a" "c < 3" for p c
    using out(6) [OF that] blend_formula_u8 [of "at a p c" "at b p c" "at msk p 0"]
    by (simp add: blend_formula_def)
  then show ?thesis using out(1-5) by blast
qed


theorem alpha_blend_pixel_formula_witness:
  "blend_inputs_ok ex_a ex_b ex_m \<and>
   (\<exists>out. alpha_blend ex_a ex_b ex_m = Inr out \<and> uint (at out 1 0) = 155)"
proof -
  have h: "blend_inputs_ok ex_a ex_b ex_m"
    by (simp add: blend_inputs_ok_def blend_asserts_def mat_ok_def is_8UC3_def is_8UC1_def
        INT_MAX_def ex_a_def ex_b_def ex_m_def)
  obtain out where o: "alpha_blend ex_a ex_b ex_m = Inr out"
    "\<forall>p<rows ex_a * cols ex_a. \<forall>c<3.
       uint (at out p c) =
         c_div (uint (at ex_a p c) * uint (at ex_m p 0)
                + uint (at ex_b p c) * (255 - uint (at ex_m p 0))) 255"
    using alpha_blend_pixel_formula [OF h] by blast
  have "(1::nat) < rows ex_a * cols ex_a" "(0::nat) < 3" by (simp_all add: ex_a_def)
  with o(2) have "uint (at out 1 0) =
         c_div (uint (at ex_a 1 0) * uint (at ex_m 1 0)
                + uint (at ex_b 1 0) * (255 - uint (at ex_m 1 0))) 255"
    by blast
  then have "uint (at out 1 0) = 155"
    by (simp add: at_def ex_a_def ex_b_def ex_m_def c_div_def)
  then show ?thesis using h o(1) by blast
qed

lemma blend_formula_255: "blend_formula a b 255 = uint a"
  by (simp add: blend_formula_def c_div_nonneg)

lemma blend_formula_0: "blend_formula a b 0 = uint b"
  by (simp add: blend_formula_def c_div_nonneg)

lemma to_u8_uint: "to_u8 (uint x) = x"
  by (simp add: to_u8_def)

text \<open>
  Claim C10. On valid input every output channel lies between the two input channels,
  \<open>min(a[p][c], b[p][c]) \<le> out[p][c] \<le> max(a[p][c], b[p][c])\<close>; a mask value of 255
  gives exactly \<open>a[p][c]\<close> and a mask value of 0 gives exactly \<open>b[p][c]\<close>.
\<close>

theorem alpha_blend_between_inputs:
  assumes "blend_inputs_ok a b msk"
  shows "\<exists>out. alpha_blend a b msk = Inr out \<and>
           (\<forall>p<rows a * cols a. \<forall>c<3.
              min (at a p c) (at b p c) \<le> at out p c \<and>
              at out p c \<le> max (at a p c) (at b p c) \<and>
              (at msk p 0 = 255 \<longrightarrow> at out p c = at a p c) \<and>
              (at msk p 0 = 0 \<longrightarrow> at out p c = at b p c))"
proof -
  obtain out where out: "alpha_blend a b msk = Inr out"
    "\<And>p c. p < rows a * cols a \<Longrightarrow> c < 3 \<Longrightarrow>
       at out p c = to_u8 (blend_formula (at a p c) (at b p c) (at msk p 0))"
    using alpha_blend_out [OF assms] by blast
  have "min (at a p c) (at b p c) \<le> at out p c \<and>
        at out p c \<le> max (at a p c) (at b p c) \<and>
        (at msk p 0 = 255 \<longrightarrow> at out p c = at a p c) \<and>
        (at msk p 0 = 0 \<longrightarrow> at out p c = at b p c)"
    if "p < rows a * cols a" "c < 3" for p c
  proof -
    let ?x = "at a p c" and ?y = "at b p c" and ?w = "at msk p 0"
    have eq: "at out p c = to_u8 (blend_formula ?x ?y ?w)" using that by (rule out(2))
    then have u: "uint (at out p c) = blend_formula ?x ?y ?w" by (simp add: blend_formula_u8)
    have mn: "uint (min ?x ?y) = min (uint ?x) (uint ?y)"
      and mx: "uint (max ?x ?y) = max (uint ?x) (uint ?y)"
      by (simp_all add: min_def max_def word_le_def)
    have "uint (min ?x ?y) \<le> uint (at out p c)" "uint (at out p c) \<le> uint (max ?x ?y)"
      using blend_formula_range [of ?x ?y ?w] by (simp_all only: u mn mx)
    then have "min ?x ?y \<le> at out p c" "at out p c \<le> max ?x ?y"
      by (simp_all only: word_le_def)
    moreover have "at out p c = ?x" if "?w = 255"
      using eq that by (simp add: blend_formula_255 to_u8_uint)
    moreover have "at out p c = ?y" if "?w = 0"
      using eq that by (simp add: blend_formula_0 to_u8_uint)
    ultimately show ?thesis by blast
  qed
  then show ?thesis using out(1) by blast
qed


theorem alpha_blend_between_inputs_witness:
  "blend_inputs_ok ex_a ex_b ex_m \<and>
   (\<exists>out. alpha_blend ex_a ex_b ex_m = Inr out \<and> at out 0 0 = 200 \<and>
      10 \<le> at out 1 0 \<and> at out 1 0 \<le> 250)"
proof -
  have h: "blend_inputs_ok ex_a ex_b ex_m"
    by (simp add: blend_inputs_ok_def blend_asserts_def mat_ok_def is_8UC3_def is_8UC1_def
        INT_MAX_def ex_a_def ex_b_def ex_m_def)
  obtain out where o: "alpha_blend ex_a ex_b ex_m = Inr out"
    "\<forall>p<rows ex_a * cols ex_a. \<forall>c<3.
       min (at ex_a p c) (at ex_b p c) \<le> at out p c \<and>
       at out p c \<le> max (at ex_a p c) (at ex_b p c) \<and>
       (at ex_m p 0 = 255 \<longrightarrow> at out p c = at ex_a p c) \<and>
       (at ex_m p 0 = 0 \<longrightarrow> at out p c = at ex_b p c)"
    using alpha_blend_between_inputs [OF h] by blast
  have n: "(0::nat) < rows ex_a * cols ex_a" "(1::nat) < rows ex_a * cols ex_a" "(0::nat) < 3"
    by (simp_all add: ex_a_def)
  from o(2) n(1,3) have "at ex_m 0 0 = 255 \<longrightarrow> at out 0 0 = at ex_a 0 0" by blast
  then have first: "at out 0 0 = 200" by (simp add: at_def ex_a_def ex_m_def)
  from o(2) n(2,3) have "min (at ex_a 1 0) (at ex_b 1 0) \<le> at out 1 0 \<and>
       at out 1 0 \<le> max (at ex_a 1 0) (at ex_b 1 0)" by blast
  then have "10 \<le> at out 1 0 \<and> at out 1 0 \<le> 250"
    by (simp add: at_def ex_a_def ex_b_def)
  then show ?thesis using h o(1) first by blast
qed

text \<open>
  Claim C9. On valid input, blending \<open>a\<close> over \<open>b\<close> with mask \<open>m\<close> and blending
  \<open>b\<close> over \<open>a\<close> with the mask \<open>255 - m\<close> return the same image, byte for byte.
\<close>

theorem alpha_blend_mask_negation:
  assumes "blend_inputs_ok a b msk"
  shows "\<exists>out. alpha_blend a b msk = Inr out \<and> alpha_blend b a (mask_negate msk) = Inr out"
proof -
  from assms have dims: "rows b = rows a" "cols b = cols a"
    and lm: "length (data msk) = rows a * cols a"
    by (simp_all add: blend_inputs_ok_def blend_asserts_def mat_ok_def is_8UC1_def)
  have "alpha_blend b a (mask_negate msk) =
          Inr \<lparr>rows = rows b, cols = cols b, depth = CV_8U, channels = 3,
               data = blend_bytes (data b) (data a) (data (mask_negate msk)) (rows b * cols b)\<rparr>"
    using assms by (intro alpha_blend_closed_form blend_inputs_ok_swap)
  also have "\<dots> = Inr \<lparr>rows = rows a, cols = cols a, depth = CV_8U, channels = 3,
               data = blend_bytes (data a) (data b) (data msk) (rows a * cols a)\<rparr>"
    using dims lm by (simp add: mask_negate_def blend_bytes_swap)
  finally show ?thesis using alpha_blend_closed_form [OF assms] by simp
qed


theorem alpha_blend_mask_negation_witness:
  "blend_inputs_ok ex_a ex_b ex_m \<and>
   (\<exists>out. alpha_blend ex_a ex_b ex_m = Inr out \<and>
      alpha_blend ex_b ex_a (mask_negate ex_m) = Inr out)"
proof -
  have h: "blend_inputs_ok ex_a ex_b ex_m"
    by (simp add: blend_inputs_ok_def blend_asserts_def mat_ok_def is_8UC3_def is_8UC1_def
        INT_MAX_def ex_a_def ex_b_def ex_m_def)
  show ?thesis using h alpha_blend_mask_negation [OF h] by blast
qed

text \<open>
  Claim C3, as the source has it. When the inputs violate the precondition (the three
  matrices do not share rows and columns, or \<open>a\<close> or \<open>b\<close> is not \<^verbatim>\<open>CV_8UC3\<close>, or the
  mask is not \<^verbatim>\<open>CV_8UC1\<close>), \<^verbatim>\<open>alpha_blend\<close> stops at a failed \<^verbatim>\<open>assert\<close>, before the
  output is allocated: it returns no image and no typed error.
\<close>

theorem alpha_blend_violation_aborts:
  assumes "rows a \<noteq> rows b \<or> cols a \<noteq> cols b \<or> rows msk \<noteq> rows a \<or> cols msk \<noteq> cols a
           \<or> \<not> is_8UC3 a \<or> \<not> is_8UC3 b \<or> \<not> is_8UC1 msk"
  shows "alpha_blend a b msk = Inl AssertionFailed"
  using assms by (auto simp: alpha_blend_def blend_asserts_def)


theorem alpha_blend_violation_aborts_witness:
  "\<not> is_8UC1 ex_a \<and> alpha_blend ex_a ex_b ex_a = Inl AssertionFailed"
proof -
  have h: "\<not> is_8UC1 ex_a" by (simp add: is_8UC1_def ex_a_def)
  then have "alpha_blend ex_a ex_b ex_a = Inl AssertionFailed"
    by (intro alpha_blend_violation_aborts) simp
  then show ?thesis using h by simp
qed

text \<open>
  The claim as written asks for a typed error \<open>DimensionMismatch\<close> or \<open>InvalidLayout\<close>.
  Two images of different rows give neither.
\<close>

theorem alpha_blend_no_typed_error_counterexample:
  "rows ex_a \<noteq> rows ex_tall \<and>
   alpha_blend ex_a ex_tall ex_m \<noteq> Inl DimensionMismatch \<and>
   alpha_blend ex_a ex_tall ex_m \<noteq> Inl InvalidLayout"
  by (simp add: alpha_blend_def blend_asserts_def ex_a_def ex_tall_def)

section \<open>Properties of the pixel format converter\<close>

subsection \<open>The planes of a three-channel byte image\<close>

lemma concat_singletons: "concat (map (\<lambda>p. [f p]) xs) = map f xs"
  by (induction xs) simp_all

lemma take1_drop: "i < length d \<Longrightarrow> take (Suc 0) (drop i d) = [d ! i]"
  by (metis Cons_nth_drop_Suc take0 take_Suc_Cons)

lemma split_plane_8UC3:
  assumes "is_8UC3 m" "mat_ok m" "k < 3"
  shows "data (split_plane m k) = map (\<lambda>p. data m ! (p * 3 + k)) [0..<rows m * cols m]"
proof -
  have len: "length (data m) = rows m * cols m * 3" and ch: "channels m = 3" "depth m = CV_8U"
    using assms by (simp_all add: is_8UC3_def mat_ok_def)
  have "take (Suc 0) (drop (p * 3 + k) (data m)) = [data m ! (p * 3 + k)]"
    if "p \<in> set [0..<rows m * cols m]" for p
  proof -
    from that have "p < rows m * cols m" by simp
    then have "p * 3 + k < length (data m)" using len assms(3) by simp
    then show ?thesis by (rule take1_drop)
  qed
  then have "map (\<lambda>p. take (Suc 0) (drop (p * 3 + k) (data m))) [0..<rows m * cols m]
        = map (\<lambda>p. [data m ! (p * 3 + k)]) [0..<rows m * cols m]"
    by (intro map_cong refl)
  then have "concat (map (\<lambda>p. take (Suc 0) (drop (p * 3 + k) (data m))) [0..<rows m * cols m])
        = map (\<lambda>p. data m ! (p * 3 + k)) [0..<rows m * cols m]"
    by (simp only: concat_singletons)
  then show ?thesis
    by (simp add: split_plane_def ch)
qed

lemma plane_8UC3:
  assumes "is_8UC3 m" "mat_ok m" "0 < rows m * cols m" "k < 3"
  shows "plane m k = map (\<lambda>p. data m ! (p * 3 + k)) [0..<rows m * cols m]"
    and "length (cv_split m) = 3"
proof -
  have ch: "channels m = 3" using assms by (simp add: is_8UC3_def)
  show "length (cv_split m) = 3" using assms(3) ch by (simp add: cv_split_def)
  have "cv_split m ! k = split_plane m k"
    using assms(3,4) ch by (simp add: cv_split_def)
  then show "plane m k = map (\<lambda>p. data m ! (p * 3 + k)) [0..<rows m * cols m]"
    using split_plane_8UC3 [OF assms(1,2,4)] by (simp add: plane_def)
qed

subsection \<open>The loop\<close>

lemma avg2_u8: "uint (to_u8 (avg2 x y)) = avg2 x y"
proof -
  have "0 \<le> uint x + uint y" "uint x + uint y < 512"
    using uint_lt2p [of x] uint_lt2p [of y] by simp_all
  then have "0 \<le> avg2 x y" "avg2 x y < 256"
    by (simp_all add: avg2_def c_div_nonneg)
  then show ?thesis by (simp add: to_u8_def uint_word_of_int)
qed

lemma yuyv_pair_ok:
  assumes "i + 1 < n" "length Y = n" "length U = n" "length V = n" "length out = 2 * n"
    "n \<le> INT_MAX"
  shows "yuyv_pair Y U V i out =
           Inr (out[2 * i := Y ! i, 2 * i + 1 := to_u8 (avg2 (V ! i) (V ! (i + 1))),
                    2 * i + 2 := Y ! (i + 1), 2 * i + 3 := to_u8 (avg2 (U ! i) (U ! (i + 1)))])"
proof -
  have w: "uint_wrap (i + 1) = i + 1" "uint_wrap (i + 0) = i" "uint_wrap (2 * i + 0) = 2 * i"
    "uint_wrap (2 * i + 1) = 2 * i + 1" "uint_wrap (2 * i + 2) = 2 * i + 2"
    "uint_wrap (2 * i + 3) = 2 * i + 3"
    using assms(1,6) by (simp_all add: uint_wrap_def INT_MAX_def)
  show ?thesis
    unfolding yuyv_pair_def w using assms(1-5)
    by (simp add: rd_def wr_def avg2_def Let_def)
qed

lemma yuyv_pair_odd_end:
  assumes "i + 1 = n" "length U = n" "n \<le> INT_MAX"
  shows "yuyv_pair Y U V i out = Inl OutOfBounds"
proof -
  have w: "uint_wrap (i + 1) = n" using assms by (simp add: uint_wrap_def INT_MAX_def)
  show ?thesis unfolding yuyv_pair_def w using assms by (simp add: rd_def)
qed

lemma yuyv_loop_even:
  assumes "even n" "even i" "i \<le> n" "n \<le> INT_MAX"
    "length Y = n" "length U = n" "length V = n" "length out = 2 * n"
  shows "\<exists>out'. yuyv_loop Y U V n i out = Inr out' \<and> length out' = 2 * n \<and>
           (\<forall>j<2 * i. out' ! j = out ! j) \<and>
           (\<forall>k. i \<le> k \<longrightarrow> k < n \<longrightarrow> even k \<longrightarrow>
              out' ! (2 * k) = Y ! k \<and>
              out' ! (2 * k + 1) = to_u8 (avg2 (V ! k) (V ! (k + 1))) \<and>
              out' ! (2 * k + 2) = Y ! (k + 1) \<and>
              out' ! (2 * k + 3) = to_u8 (avg2 (U ! k) (U ! (k + 1))))"
  using assms(2,3,8)
proof (induction "n - i" arbitrary: i out rule: less_induct)
  case less
  show ?case
  proof (cases "i < n")
    case False
    then have "i = n" using less.prems by simp
    then show ?thesis using less.prems(3) by (simp add: yuyv_loop.simps)
  next
    case True
    then have i1: "i + 1 < n" using assms(1) less.prems(1) by (metis Suc_eq_plus1 Suc_lessI even_Suc)
    let ?o1 = "out[2 * i := Y ! i, 2 * i + 1 := to_u8 (avg2 (V ! i) (V ! (i + 1))),
                    2 * i + 2 := Y ! (i + 1), 2 * i + 3 := to_u8 (avg2 (U ! i) (U ! (i + 1)))]"
    have step: "yuyv_pair Y U V i out = Inr ?o1"
      using i1 assms(5-7) less.prems(3) assms(4) by (rule yuyv_pair_ok)
    have nowrap: "i + 2 < 4294967296" using i1 assms(4) by (simp add: INT_MAX_def)
    have "\<exists>out'. yuyv_loop Y U V n (i + 2) ?o1 = Inr out' \<and> length out' = 2 * n \<and>
           (\<forall>j<2 * (i + 2). out' ! j = ?o1 ! j) \<and>
           (\<forall>k. i + 2 \<le> k \<longrightarrow> k < n \<longrightarrow> even k \<longrightarrow>
              out' ! (2 * k) = Y ! k \<and>
              out' ! (2 * k + 1) = to_u8 (avg2 (V ! k) (V ! (k + 1))) \<and>
              out' ! (2 * k + 2) = Y ! (k + 1) \<and>
              out' ! (2 * k + 3) = to_u8 (avg2 (U ! k) (U ! (k + 1))))"
      using i1 less.prems by (intro less.hyps) simp_all
    then obtain out' where o': "yuyv_loop Y U V n (i + 2) ?o1 = Inr out'" "length out' = 2 * n"
      "\<And>j. j < 2 * (i + 2) \<Longrightarrow> out' ! j = ?o1 ! j"
      "\<And>k. i + 2 \<le> k \<Longrightarrow> k < n \<Longrightarrow> even k \<Longrightarrow>
              out' ! (2 * k) = Y ! k \<and>
              out' ! (2 * k + 1) = to_u8 (avg2 (V ! k) (V ! (k + 1))) \<and>
              out' ! (2 * k + 2) = Y ! (k + 1) \<and>
              out' ! (2 * k + 3) = to_u8 (avg2 (U ! k) (U ! (k + 1)))"
      by blast
    have run: "yuyv_loop Y U V n i out = Inr out'"
      using True step nowrap o'(1) by (subst yuyv_loop.simps) simp
    have old: "out' ! j = out ! j" if "j < 2 * i" for j
    proof -
      have "out' ! j = ?o1 ! j" using that by (intro o'(3)) simp
      also have "\<dots> = out ! j" using that by simp
      finally show ?thesis .
    qed
    have lo: "2 * i + 3 < length out" using i1 less.prems(3) by simp
    have cur: "out' ! (2 * i) = Y ! i \<and>
              out' ! (2 * i + 1) = to_u8 (avg2 (V ! i) (V ! (i + 1))) \<and>
              out' ! (2 * i + 2) = Y ! (i + 1) \<and>
              out' ! (2 * i + 3) = to_u8 (avg2 (U ! i) (U ! (i + 1)))"
    proof -
      have "out' ! (2 * i) = ?o1 ! (2 * i)" "out' ! (2 * i + 1) = ?o1 ! (2 * i + 1)"
        "out' ! (2 * i + 2) = ?o1 ! (2 * i + 2)" "out' ! (2 * i + 3) = ?o1 ! (2 * i + 3)"
        by (intro o'(3); simp)+
      then show ?thesis using lo by simp
    qed
    have new: "out' ! (2 * k) = Y ! k \<and>
              out' ! (2 * k + 1) = to_u8 (avg2 (V ! k) (V ! (k + 1))) \<and>
              out' ! (2 * k + 2) = Y ! (k + 1) \<and>
              out' ! (2 * k + 3) = to_u8 (avg2 (U ! k) (U ! (k + 1)))"
      if "i \<le> k" "k < n" "even k" for k
    proof (cases "k = i")
      case True
      then show ?thesis using cur by simp
    next
      case False
      then have "i + 2 \<le> k" using that less.prems(1)
        by (metis Suc_eq_plus1 Suc_leI add_2_eq_Suc' even_Suc le_neq_implies_less)
      then show ?thesis using that by (intro o'(4))
    qed
    show ?thesis using run o'(2) old new by blast
  qed
qed

lemma yuyv_loop_odd:
  assumes "odd n" "even i" "i \<le> n" "n \<le> INT_MAX"
    "length Y = n" "length U = n" "length V = n" "length out = 2 * n"
  shows "yuyv_loop Y U V n i out = Inl OutOfBounds"
  using assms(2,3,8)
proof (induction "n - i" arbitrary: i out rule: less_induct)
  case less
  have lt: "i < n" using assms(1) less.prems(1,2) by (metis le_neq_implies_less)
  show ?case
  proof (cases "i + 1 = n")
    case True
    then have "yuyv_pair Y U V i out = Inl OutOfBounds"
      using assms(6,4) by (rule yuyv_pair_odd_end)
    then show ?thesis using lt by (subst yuyv_loop.simps) simp
  next
    case False
    then have i1: "i + 1 < n" using lt by simp
    let ?o1 = "out[2 * i := Y ! i, 2 * i + 1 := to_u8 (avg2 (V ! i) (V ! (i + 1))),
                    2 * i + 2 := Y ! (i + 1), 2 * i + 3 := to_u8 (avg2 (U ! i) (U ! (i + 1)))]"
    have step: "yuyv_pair Y U V i out = Inr ?o1"
      using i1 assms(5-7) less.prems(3) assms(4) by (rule yuyv_pair_ok)
    have nowrap: "i + 2 < 4294967296" using i1 assms(4) by (simp add: INT_MAX_def)
    have "yuyv_loop Y U V n (i + 2) ?o1 = Inl OutOfBounds"
      using i1 less.prems by (intro less.hyps) simp_all
    then show ?thesis using lt step nowrap by (subst yuyv_loop.simps) simp
  qed
qed

subsection \<open>The whole function\<close>

lemma convert_setup:
  assumes "cvtColor_ok cvtColor input tmp"
  shows "convert_rgb_to_yuyv cvtColor input =
     (case yuyv_loop (plane tmp 0) (plane tmp 1) (plane tmp 2) (rows input * cols input) 0
             (replicate (2 * (rows input * cols input)) 0) of
        Inl e \<Rightarrow> Inl e
      | Inr outdata \<Rightarrow> Inr \<lparr>rows = rows input, cols = cols input, depth = CV_8U, channels = 2,
                              data = outdata\<rparr>)"
proof -
  from assms have c: "cvtColor input = Inr tmp" "rows tmp = rows input" "cols tmp = cols input"
    and t: "is_8UC3 tmp" "mat_ok tmp" "0 < rows tmp * cols tmp"
    by (simp_all add: cvtColor_ok_def)
  have l: "length (cv_split tmp) = 3" using plane_8UC3(2) [OF t, of 0] by simp
  show ?thesis
    using c l by (simp add: convert_rgb_to_yuyv_def Let_def plane_def zeros_def total_def
        mult.commute split: sum.splits)
qed

lemma plane_props:
  assumes "cvtColor_ok cvtColor input tmp" "k < 3"
  shows "length (plane tmp k) = rows input * cols input"
    and "i < rows input * cols input \<Longrightarrow> plane tmp k ! i = at tmp i k"
proof -
  from assms have c: "rows tmp = rows input" "cols tmp = cols input"
    and t: "is_8UC3 tmp" "mat_ok tmp" "0 < rows tmp * cols tmp"
    by (simp_all add: cvtColor_ok_def)
  have p: "plane tmp k = map (\<lambda>p. data tmp ! (p * 3 + k)) [0..<rows tmp * cols tmp]"
    using t assms(2) by (rule plane_8UC3(1))
  show "length (plane tmp k) = rows input * cols input" using p c by simp
  show "plane tmp k ! i = at tmp i k" if "i < rows input * cols input"
    using that p c t(1) by (simp add: at_def is_8UC3_def)
qed

lemma total_fits:
  assumes "cvtColor_ok cvtColor input tmp"
  shows "rows input * cols input \<le> INT_MAX"
  using assms by (auto simp: cvtColor_ok_def mat_ok_def)

subsection \<open>The claims\<close>

text \<open>
  Claim C2. For an RGB image with an even number of pixels, the converter takes the planes
  Y, U, V of the colour-converted image (plane \<open>k\<close> holds channel \<open>k\<close> of every pixel)
  and, for every even index \<open>i\<close> below the pixel count, stores the four bytes
  \<open>[Y_i, avg_V, Y_{i+1}, avg_U]\<close> at offset \<open>2 * i\<close> of the output, where
  \<open>avg_U = (U_i + U_{i+1}) / 2\<close> and \<open>avg_V = (V_i + V_{i+1}) / 2\<close> with truncating
  division; the output has the rows and columns of the input, two 8-bit channels, and
  exactly \<open>rows * cols * 2\<close> bytes.
\<close>

theorem convert_rgb_to_yuyv_packs_pairs:
  assumes "cvtColor_ok cvtColor input tmp" "even (rows input * cols input)"
  shows "\<exists>yuyv. convert_rgb_to_yuyv cvtColor input = Inr yuyv \<and>
           rows yuyv = rows input \<and> cols yuyv = cols input \<and>
           depth yuyv = CV_8U \<and> channels yuyv = 2 \<and>
           length (data yuyv) = rows input * cols input * 2 \<and>
           (\<forall>k<3. \<forall>i<rows input * cols input. plane tmp k ! i = at tmp i k) \<and>
           (\<forall>i<rows input * cols input. even i \<longrightarrow>
              data yuyv ! (2 * i) = plane tmp 0 ! i \<and>
              uint (data yuyv ! (2 * i + 1)) =
                c_div (uint (plane tmp 2 ! i) + uint (plane tmp 2 ! (i + 1))) 2 \<and>
              data yuyv ! (2 * i + 2) = plane tmp 0 ! (i + 1) \<and>
              uint (data yuyv ! (2 * i + 3)) =
                c_div (uint (plane tmp 1 ! i) + uint (plane tmp 1 ! (i + 1))) 2)"
proof -
  let ?n = "rows input * cols input"
  let ?Y = "plane tmp 0" and ?U = "plane tmp 1" and ?V = "plane tmp 2"
  have len: "length ?Y = ?n" "length ?U = ?n" "length ?V = ?n"
    using plane_props(1) [OF assms(1)] by simp_all
  have "\<exists>out'. yuyv_loop ?Y ?U ?V ?n 0 (replicate (2 * ?n) 0) = Inr out' \<and> length out' = 2 * ?n \<and>
           (\<forall>j<2 * 0. out' ! j = replicate (2 * ?n) 0 ! j) \<and>
           (\<forall>k. 0 \<le> k \<longrightarrow> k < ?n \<longrightarrow> even k \<longrightarrow>
              out' ! (2 * k) = ?Y ! k \<and>
              out' ! (2 * k + 1) = to_u8 (avg2 (?V ! k) (?V ! (k + 1))) \<and>
              out' ! (2 * k + 2) = ?Y ! (k + 1) \<and>
              out' ! (2 * k + 3) = to_u8 (avg2 (?U ! k) (?U ! (k + 1))))"
    using assms(2) total_fits [OF assms(1)] len by (intro yuyv_loop_even) simp_all
  then obtain od where od: "yuyv_loop ?Y ?U ?V ?n 0 (replicate (2 * ?n) 0) = Inr od"
    "length od = 2 * ?n"
    "\<And>k. k < ?n \<Longrightarrow> even k \<Longrightarrow>
              od ! (2 * k) = ?Y ! k \<and>
              od ! (2 * k + 1) = to_u8 (avg2 (?V ! k) (?V ! (k + 1))) \<and>
              od ! (2 * k + 2) = ?Y ! (k + 1) \<and>
              od ! (2 * k + 3) = to_u8 (avg2 (?U ! k) (?U ! (k + 1)))"
    by auto
  let ?out = "\<lparr>rows = rows input, cols = cols input, depth = CV_8U, channels = 2, data = od\<rparr>"
  have res: "convert_rgb_to_yuyv cvtColor input = Inr ?out"
    using od(1) by (simp add: convert_setup [OF assms(1)])
  have pl: "\<forall>k<3. \<forall>i<?n. plane tmp k ! i = at tmp i k"
    using plane_props(2) [OF assms(1)] by blast
  have pairs: "data ?out ! (2 * i) = ?Y ! i \<and>
      uint (data ?out ! (2 * i + 1)) = c_div (uint (?V ! i) + uint (?V ! (i + 1))) 2 \<and>
      data ?out ! (2 * i + 2) = ?Y ! (i + 1) \<and>
      uint (data ?out ! (2 * i + 3)) = c_div (uint (?U ! i) + uint (?U ! (i + 1))) 2"
    if "i < ?n" "even i" for i
    using od(3) [OF that] avg2_u8 [of "?V ! i" "?V ! (i + 1)"] avg2_u8 [of "?U ! i" "?U ! (i + 1)"]
    by (simp add: avg2_def)
  have hdr: "rows ?out = rows input" "cols ?out = cols input" "depth ?out = CV_8U"
    "channels ?out = 2" "length (data ?out) = ?n * 2"
    using od(2) by simp_all
  show ?thesis using res hdr pl pairs by blast
qed


theorem convert_rgb_to_yuyv_packs_pairs_witness:
  "cvtColor_ok ex_cvt ex_a ex_a \<and> even (rows ex_a * cols ex_a) \<and>
   (\<exists>yuyv. convert_rgb_to_yuyv ex_cvt ex_a = Inr yuyv \<and> length (data yuyv) = 4 \<and>
      data yuyv ! 0 = 200 \<and> data yuyv ! 2 = 10 \<and> uint (data yuyv ! 1) = 15 \<and>
      uint (data yuyv ! 3) = 60)"
proof -
  have h: "cvtColor_ok ex_cvt ex_a ex_a" "even (rows ex_a * cols ex_a)"
    by (simp_all add: cvtColor_ok_def ex_cvt_def ex_a_def is_8UC3_def mat_ok_def INT_MAX_def)
  obtain yuyv where y: "convert_rgb_to_yuyv ex_cvt ex_a = Inr yuyv"
    "length (data yuyv) = rows ex_a * cols ex_a * 2"
    "\<forall>k<3. \<forall>i<rows ex_a * cols ex_a. plane ex_a k ! i = at ex_a i k"
    "\<forall>i<rows ex_a * cols ex_a. even i \<longrightarrow>
       data yuyv ! (2 * i) = plane ex_a 0 ! i \<and>
       uint (data yuyv ! (2 * i + 1)) =
         c_div (uint (plane ex_a 2 ! i) + uint (plane ex_a 2 ! (i + 1))) 2 \<and>
       data yuyv ! (2 * i + 2) = plane ex_a 0 ! (i + 1) \<and>
       uint (data yuyv ! (2 * i + 3)) =
         c_div (uint (plane ex_a 1 ! i) + uint (plane ex_a 1 ! (i + 1))) 2"
    using convert_rgb_to_yuyv_packs_pairs [OF h] by blast
  have n: "rows ex_a * cols ex_a = 2" by (simp add: ex_a_def)
  have pl: "plane ex_a k ! i = at ex_a i k" if "k < 3" "i < 2" for k i
    using y(3) that n by simp
  have p: "plane ex_a 0 ! 0 = 200" "plane ex_a 0 ! 1 = 10" "plane ex_a 1 ! 0 = 100"
    "plane ex_a 1 ! 1 = 20" "plane ex_a 2 ! 0 = 0" "plane ex_a 2 ! 1 = 30"
    using pl [of 0 0] pl [of 0 1] pl [of 1 0] pl [of 1 1] pl [of 2 0] pl [of 2 1]
    by (simp_all add: at_def ex_a_def)
  have "(0::nat) < rows ex_a * cols ex_a" "even (0::nat)" using n by simp_all
  with y(4) have "data yuyv ! (2 * 0) = plane ex_a 0 ! 0 \<and>
       uint (data yuyv ! (2 * 0 + 1)) =
         c_div (uint (plane ex_a 2 ! 0) + uint (plane ex_a 2 ! (0 + 1))) 2 \<and>
       data yuyv ! (2 * 0 + 2) = plane ex_a 0 ! (0 + 1) \<and>
       uint (data yuyv ! (2 * 0 + 3)) =
         c_div (uint (plane ex_a 1 ! 0) + uint (plane ex_a 1 ! (0 + 1))) 2"
    by blast
  moreover have "2 * (0::nat) = 0" "0 + 1 = (1::nat)" "0 + 2 = (2::nat)" "0 + 3 = (3::nat)"
    by simp_all
  ultimately have e: "data yuyv ! 0 = plane ex_a 0 ! 0"
    "uint (data yuyv ! 1) = c_div (uint (plane ex_a 2 ! 0) + uint (plane ex_a 2 ! 1)) 2"
    "data yuyv ! 2 = plane ex_a 0 ! 1"
    "uint (data yuyv ! 3) = c_div (uint (plane ex_a 1 ! 0) + uint (plane ex_a 1 ! 1)) 2"
    by metis+
  have "data yuyv ! 0 = 200 \<and> data yuyv ! 2 = 10 \<and> uint (data yuyv ! 1) = 15 \<and>
      uint (data yuyv ! 3) = 60"
    by (simp only: e p) (simp add: c_div_def)
  then show ?thesis using h y(1,2) n by simp
qed

text \<open>
  Claim C4 says that an image with an odd number of pixels is rejected with
  \<open>InvalidDimensions\<close> instead of truncation or undefined behaviour. The source does
  not do so. It has no test of the pixel count, and the loop, which steps by two, reaches
  the last pixel alone: the partner it reads, \<^verbatim>\<open>udata[i + 1]\<close>, lies one past the end
  of the plane (as do \<^verbatim>\<open>vdata[i + 1]\<close> and \<^verbatim>\<open>ydata[i + 1]\<close>, and the stores to
  \<^verbatim>\<open>outdata[2 * i + 2]\<close> and \<^verbatim>\<open>outdata[2 * i + 3]\<close> lie past the output buffer).
  On every image with an odd number of pixels the function ends in that access outside
  its buffers.
\<close>

theorem convert_rgb_to_yuyv_odd_out_of_bounds:
  assumes "cvtColor_ok cvtColor input tmp" "odd (rows input * cols input)"
  shows "convert_rgb_to_yuyv cvtColor input = Inl OutOfBounds"
proof -
  let ?n = "rows input * cols input"
  have len: "length (plane tmp 0) = ?n" "length (plane tmp 1) = ?n" "length (plane tmp 2) = ?n"
    using plane_props(1) [OF assms(1)] by simp_all
  have "yuyv_loop (plane tmp 0) (plane tmp 1) (plane tmp 2) ?n 0 (replicate (2 * ?n) 0)
          = Inl OutOfBounds"
    using assms(2) total_fits [OF assms(1)] len by (intro yuyv_loop_odd) simp_all
  then show ?thesis by (simp add: convert_setup [OF assms(1)])
qed

theorem convert_rgb_to_yuyv_odd_out_of_bounds_witness:
  "cvtColor_ok ex_cvt ex_px ex_px \<and> odd (rows ex_px * cols ex_px) \<and>
   convert_rgb_to_yuyv ex_cvt ex_px = Inl OutOfBounds \<and>
   convert_rgb_to_yuyv ex_cvt ex_px \<noteq> Inl InvalidDimensions"
proof -
  have h: "cvtColor_ok ex_cvt ex_px ex_px" "odd (rows ex_px * cols ex_px)"
    by (simp_all add: cvtColor_ok_def ex_cvt_def ex_px_def is_8UC3_def mat_ok_def INT_MAX_def)
  show ?thesis using h convert_rgb_to_yuyv_odd_out_of_bounds [OF h] by simp
qed

text \<open>
  The same on the image of a single pixel, by evaluating the function: the planes have
  one byte each and the first iteration reads index 1.
\<close>

lemma convert_rgb_to_yuyv_single_pixel_example:
  "convert_rgb_to_yuyv ex_cvt ex_px = Inl OutOfBounds"
  by (simp add: convert_rgb_to_yuyv_def ex_cvt_def ex_px_def cv_split_def split_plane_def
      zeros_def total_def Let_def yuyv_loop.simps yuyv_pair_def rd_def uint_wrap_def)

section \<open>Properties of the FourCC resolver\<close>

subsection \<open>The fill loop and the packing\<close>

lemma fourcc_fill_eq:
  "i \<le> length inp \<Longrightarrow> length inp \<le> length a \<Longrightarrow>
   fourcc_fill inp i a = take i a @ map toupper (drop i inp) @ drop (length inp) a"
proof (induction inp i a rule: fourcc_fill.induct)
  case (1 inp i a)
  show ?case
  proof (cases "i < length inp")
    case False
    then have "i = length inp" using "1.prems" by simp
    then show ?thesis by (simp add: fourcc_fill.simps)
  next
    case True
    let ?v = "toupper (inp ! i)"
    have ia: "i < length a" using True "1.prems" by simp
    have "fourcc_fill inp i a = fourcc_fill inp (i + 1) (a[i := ?v])"
      using True by (subst fourcc_fill.simps) simp
    also have "\<dots> = take (i + 1) (a[i := ?v]) @ map toupper (drop (i + 1) inp)
                       @ drop (length inp) (a[i := ?v])"
      using True "1.prems" by (intro "1.IH") simp_all
    also have "take (i + 1) (a[i := ?v]) = take i a @ [?v]"
      using ia by (simp add: take_Suc_conv_app_nth)
    also have "drop (length inp) (a[i := ?v]) = drop (length inp) a"
      using True by simp
    also have "(take i a @ [?v]) @ map toupper (drop (i + 1) inp) @ drop (length inp) a
        = take i a @ map toupper (drop i inp) @ drop (length inp) a"
      using True by (simp add: Cons_nth_drop_Suc [symmetric])
    finally show ?thesis .
  qed
qed

lemma fourcc_fill_pad4:
  assumes "length inp \<le> 4"
  shows "fourcc_fill inp 0 [32, 32, 32, 32] = pad4 (map toupper inp)"
proof -
  have r: "[32, 32, 32, 32 :: u8] = replicate 4 32" by (simp add: numeral_eq_Suc)
  have "fourcc_fill inp 0 (replicate 4 32) =
          take 0 (replicate 4 32) @ map toupper (drop 0 inp) @ drop (length inp) (replicate 4 32)"
    using assms by (intro fourcc_fill_eq) simp_all
  then show ?thesis by (simp add: r pad4_def)
qed

lemma unat_u8_less: "unat (c::u8) < 256"
proof -
  have "unat c < 2 ^ LENGTH(8)" by (rule unsigned_less)
  then show ?thesis by simp
qed

lemma unat_ucast_u8: "unat (ucast (c::u8) :: u32) = unat c"
  using unat_u8_less [of c] by (simp add: unsigned_ucast_eq take_bit_nat_eq_self_iff)

lemma unat_cv_fourcc:
  "unat (cv_fourcc c1 c2 c3 c4) = unat c1 + 256 * unat c2 + 65536 * unat c3 + 16777216 * unat c4"
proof -
  have b: "unat c1 < 256" "unat c2 < 256" "unat c3 < 256" "unat c4 < 256"
    by (rule unat_u8_less)+
  have p2: "unat (push_bit 8 (ucast c2 :: u32)) = 256 * unat c2"
    using b(2) by (simp add: push_bit_eq_mult unat_word_ariths unat_ucast_u8)
  have p3: "unat (push_bit 16 (ucast c3 :: u32)) = 65536 * unat c3"
    using b(3) by (simp add: push_bit_eq_mult unat_word_ariths unat_ucast_u8)
  have p4: "unat (push_bit 24 (ucast c4 :: u32)) = 16777216 * unat c4"
    using b(4) by (simp add: push_bit_eq_mult unat_word_ariths unat_ucast_u8)
  show ?thesis
    unfolding cv_fourcc_def using b
    by (simp add: unat_word_ariths p2 p3 p4 unat_ucast_u8)
qed

lemma split_low_byte:
  fixes a m :: nat
  assumes "a < 256"
  shows "(a + 256 * m) mod 256 = a" and "(a + 256 * m) div 256 = m"
  using assms by simp_all

lemma code_byte_cv_fourcc:
  "code_byte (cv_fourcc c1 c2 c3 c4) 0 = c1"
  "code_byte (cv_fourcc c1 c2 c3 c4) 1 = c2"
  "code_byte (cv_fourcc c1 c2 c3 c4) 2 = c3"
  "code_byte (cv_fourcc c1 c2 c3 c4) 3 = c4"
proof -
  let ?w = "cv_fourcc c1 c2 c3 c4"
  have b: "unat c1 < 256" "unat c2 < 256" "unat c3 < 256" "unat c4 < 256"
    by (rule unat_u8_less)+
  have u: "unat (code_byte w k) = (unat w div 2 ^ (8 * k)) mod 256" for w k
  proof -
    have "unat (code_byte w k) = take_bit 8 (drop_bit (8 * k) (unat w))"
      by (simp only: code_byte_def unsigned_ucast_eq unat_drop_bit_eq) simp
    then show ?thesis by (simp add: drop_bit_eq_div take_bit_eq_mod)
  qed
  have n: "unat ?w = unat c1 + 256 * (unat c2 + 256 * (unat c3 + 256 * unat c4))"
    by (simp add: unat_cv_fourcc)
  have d1: "unat ?w div 256 = unat c2 + 256 * (unat c3 + 256 * unat c4)"
    unfolding n using b(1) by (rule split_low_byte(2))
  have d2: "unat ?w div 65536 = unat c3 + 256 * unat c4"
  proof -
    have "unat ?w div 65536 = unat ?w div 256 div 256"
      by (simp add: div_mult2_eq [symmetric])
    also have "\<dots> = unat c3 + 256 * unat c4"
      unfolding d1 using b(2) by (rule split_low_byte(2))
    finally show ?thesis .
  qed
  have d3: "unat ?w div 16777216 = unat c4"
  proof -
    have "unat ?w div 16777216 = unat ?w div 65536 div 256"
      by (simp add: div_mult2_eq [symmetric])
    also have "\<dots> = unat c4"
      unfolding d2 using b(3) by simp
    finally show ?thesis .
  qed
  have d0: "unat ?w mod 256 = unat c1"
    unfolding n using b(1) by (rule split_low_byte(1))
  have "unat (code_byte ?w 0) = unat c1"
    by (simp add: u d0)
  then show "code_byte ?w 0 = c1" by (simp only: word_unat_eq_iff)
  have m1: "unat ?w div 256 mod 256 = unat c2"
    unfolding d1 using b(2) by (rule split_low_byte(1))
  have m2: "unat ?w div 65536 mod 256 = unat c3"
    unfolding d2 using b(3) by (rule split_low_byte(1))
  have m3: "unat ?w div 16777216 mod 256 = unat c4"
    unfolding d3 using b(4) by simp
  have "unat (code_byte ?w 1) = unat c2"
    by (simp add: u m1)
  then show "code_byte ?w 1 = c2" by (simp only: word_unat_eq_iff)
  have "unat (code_byte ?w 2) = unat c3"
    by (simp add: u m2)
  then show "code_byte ?w 2 = c3" by (simp only: word_unat_eq_iff)
  have "unat (code_byte ?w 3) = unat c4"
    by (simp add: u m3)
  then show "code_byte ?w 3 = c4" by (simp only: word_unat_eq_iff)
qed


subsection \<open>The claims\<close>

text \<open>
  Claim C5. For every string \<open>s\<close> whose length is not 8, \<^verbatim>\<open>fourCcFromString\<close> returns 0
  when \<open>s\<close> is empty; when \<open>s\<close> has 1 to 4 characters, the tag constructor's pack of
  \<open>s\<close> upper-cased and right-padded with spaces to exactly four characters, in which
  byte \<open>k\<close> of the code is character \<open>k\<close> (left to right, not reversed); and 0 when
  \<open>s\<close> has 5 to 7 or more than 8 characters.
\<close>

theorem fourCcFromString_short_or_long:
  assumes "length s \<noteq> 8"
  shows "\<exists>code. fourCcFromString s = Inr code \<and>
     (s = [] \<longrightarrow> code = 0) \<and>
     (1 \<le> length s \<and> length s \<le> 4 \<longrightarrow>
        length (pad4 (map toupper s)) = 4 \<and>
        code = cv_fourcc (pad4 (map toupper s) ! 0) (pad4 (map toupper s) ! 1)
                         (pad4 (map toupper s) ! 2) (pad4 (map toupper s) ! 3) \<and>
        (\<forall>k<4. code_byte code k = pad4 (map toupper s) ! k)) \<and>
     (5 \<le> length s \<longrightarrow> code = 0)"
proof (cases "1 \<le> length s \<and> length s \<le> 4")
  case False
  then have "s = [] \<or> 5 \<le> length s" by (cases s) auto
  then have "fourCcFromString s = Inr 0"
    using assms by (auto simp: fourCcFromString_def)
  then show ?thesis using False by auto
next
  case True
  let ?p = "pad4 (map toupper s)"
  let ?code = "cv_fourcc (?p ! 0) (?p ! 1) (?p ! 2) (?p ! 3)"
  have ne: "s \<noteq> []" using True by auto
  have res: "fourCcFromString s = Inr ?code"
    using True ne by (simp add: fourCcFromString_def fourcc_fill_pad4 Let_def)
  have len: "length ?p = 4" using True by (simp add: pad4_def)
  have bytes: "code_byte ?code k = ?p ! k" if "k < 4" for k
  proof -
    from that have "k = 0 \<or> k = 1 \<or> k = 2 \<or> k = 3" by arith
    then show ?thesis using code_byte_cv_fourcc [of "?p ! 0" "?p ! 1" "?p ! 2" "?p ! 3"] by auto
  qed
  show ?thesis using res len bytes True ne by auto
qed

theorem fourCcFromString_short_or_long_witness:
  "length ''mjpg'' \<noteq> 8 \<and> fourCcFromString ''mjpg'' = Inr 0x47504A4D"
proof -
  have h: "length ''mjpg'' \<noteq> 8" by simp
  obtain code where c: "fourCcFromString ''mjpg'' = Inr code"
    "1 \<le> length ''mjpg'' \<and> length ''mjpg'' \<le> 4 \<longrightarrow>
        code = cv_fourcc (pad4 (map toupper ''mjpg'') ! 0) (pad4 (map toupper ''mjpg'') ! 1)
                         (pad4 (map toupper ''mjpg'') ! 2) (pad4 (map toupper ''mjpg'') ! 3)"
    using fourCcFromString_short_or_long [OF h] by blast
  from c(2) have "code = 0x47504A4D"
    by (simp add: toupper_def pad4_def cv_fourcc_def)
  then show ?thesis using c(1) by simp
qed

text \<open>
  What \<^verbatim>\<open>std::stoi\<close> accepts is more than eight digits: white space, a sign, the prefix
  and trailing characters pass.
\<close>

lemma fourCcFromString_signed_example: "fourCcFromString '' -0x1f g'' = Inr (- 31)"
  by (simp add: fourCcFromString_def stoi16_def c_isspace_def is_xdigit_def xdigit_val_def hex_value_def)

subsection \<open>The hexadecimal path\<close>

lemma xdigit_not_special:
  assumes "is_xdigit c"
  shows "\<not> c_isspace c" "c \<noteq> CHR ''-''" "c \<noteq> CHR ''+''" "c \<noteq> CHR ''x''" "c \<noteq> CHR ''X''"
  using assms
  by (auto simp: is_xdigit_def xdigit_val_def c_isspace_def Let_def split: if_splits)

lemma strip_0x_all_hex:
  assumes "\<forall>c\<in>set s. is_xdigit c"
  shows "strip_0x s = s"
proof (cases s rule: strip_0x.cases)
  case (1 c0 c1 c2 cs)
  then have "is_xdigit c1" using assms by simp
  then have "c1 \<noteq> CHR ''x''" "c1 \<noteq> CHR ''X''" by (rule xdigit_not_special)+
  then show ?thesis using 1 by simp
qed simp_all

lemma stoi16_all_hex:
  assumes "s \<noteq> []" "\<forall>c\<in>set s. is_xdigit c"
  shows "stoi16 s = (if hex_value s \<le> 2147483647 then Inr (int (hex_value s))
                     else Inl Std_out_of_range)"
proof -
  obtain c cs where s: "s = c # cs" using assms(1) by (cases s) auto
  have c: "is_xdigit c" using assms(2) s by simp
  have d: "dropWhile c_isspace s = s" using xdigit_not_special(1) [OF c] s by simp
  have h: "hd s \<noteq> CHR ''-''" "hd s \<noteq> CHR ''+''"
    using xdigit_not_special(2,3) [OF c] s by simp_all
  have t: "takeWhile is_xdigit s = s" using assms(2) by (simp add: takeWhile_eq_all_conv)
  show ?thesis
    using assms(1) by (simp add: stoi16_def d h strip_0x_all_hex [OF assms(2)] t Let_def)
qed

lemma stoi16_no_digit:
  assumes "s \<noteq> []" "\<not> c_isspace (hd s)" "hd s \<noteq> CHR ''-''" "hd s \<noteq> CHR ''+''"
    "\<not> is_xdigit (hd s)"
  shows "stoi16 s = Inl Std_invalid_argument"
proof -
  obtain c cs where s: "s = c # cs" using assms(1) by (cases s) auto
  have d: "dropWhile c_isspace s = s" using assms(2) s by simp
  have c0: "c \<noteq> CHR ''0''"
  proof
    assume "c = CHR ''0''"
    then have "is_xdigit c" by (simp add: is_xdigit_def xdigit_val_def)
    then show False using assms(5) s by simp
  qed
  have "strip_0x (c # cs) = c # cs"
  proof (cases cs)
    case Nil
    then show ?thesis by simp
  next
    case (Cons c1 cs1)
    then show ?thesis using c0 by (cases cs1) simp_all
  qed
  then have st: "takeWhile is_xdigit (strip_0x s) = []"
    using assms(5) s by simp
  show ?thesis using assms(1,3,4) by (simp add: stoi16_def d st Let_def)
qed

lemma stoi16_failures:
  "stoi16 s = Inl e \<Longrightarrow> e = Std_invalid_argument \<or> e = Std_out_of_range"
  by (auto simp: stoi16_def Let_def split: if_splits)

lemma stoi16_cases:
  "stoi16 s =
     (if stoi16_digits s = [] then Inl Std_invalid_argument
      else if in_int_range (stoi16_value s) then Inr (stoi16_value s)
      else Inl Std_out_of_range)"
  by (auto simp: stoi16_def stoi16_digits_def stoi16_negative_def stoi16_value_def
      in_int_range_def Let_def)

text \<open>
  Claim C6, as the source has it. For every string of exactly 8 characters the result is
  that of \<^verbatim>\<open>std::stoi\<close> with base 16, whatever it is: a value is returned as the code, an
  exception leaves the function as it is. The value is that of the digits read (after
  white space, a sign and the prefix; what follows the digits is ignored), so eight
  hexadecimal digits with a value of at most \<open>INT_MAX\<close> give that value. A failed parse
  is not turned into \<open>InvalidFourCC\<close>: it is \<^verbatim>\<open>std::invalid_argument\<close> exactly when no
  digit can be read (in particular when the string starts with a character that is no
  white space, no sign and no digit), \<^verbatim>\<open>std::out_of_range\<close> exactly when digits are read
  and their value is outside \<^verbatim>\<open>int\<close> (in particular for eight digits above
  \<open>INT_MAX\<close>); the function fails in no other way.
\<close>

theorem fourCcFromString_hex8:
  assumes "length s = 8"
  shows "fourCcFromString s = (case stoi16 s of Inl e \<Rightarrow> Inl e | Inr v \<Rightarrow> Inr (word_of_int v)) \<and>
         (stoi16_digits s \<noteq> [] \<and> in_int_range (stoi16_value s) \<longrightarrow>
            stoi16 s = Inr (stoi16_value s) \<and>
            fourCcFromString s = Inr (word_of_int (stoi16_value s))) \<and>
         (fourCcFromString s = Inl Std_invalid_argument \<longleftrightarrow> stoi16_digits s = []) \<and>
         (fourCcFromString s = Inl Std_out_of_range \<longleftrightarrow>
            stoi16_digits s \<noteq> [] \<and> \<not> in_int_range (stoi16_value s)) \<and>
         ((\<forall>c\<in>set s. is_xdigit c) \<and> hex_value s \<le> 2147483647 \<longrightarrow>
            fourCcFromString s = Inr (of_nat (hex_value s))) \<and>
         ((\<forall>c\<in>set s. is_xdigit c) \<and> 2147483647 < hex_value s \<longrightarrow>
            fourCcFromString s = Inl Std_out_of_range) \<and>
         (\<not> c_isspace (hd s) \<and> hd s \<noteq> CHR ''-'' \<and> hd s \<noteq> CHR ''+'' \<and> \<not> is_xdigit (hd s) \<longrightarrow>
            fourCcFromString s = Inl Std_invalid_argument) \<and>
         (\<forall>e. fourCcFromString s = Inl e \<longleftrightarrow> stoi16 s = Inl e) \<and>
         (\<forall>e. fourCcFromString s = Inl e \<longrightarrow> e = Std_invalid_argument \<or> e = Std_out_of_range)"
proof -
  have ne: "s \<noteq> []" using assms by auto
  have f: "fourCcFromString s = (case stoi16 s of Inl e \<Rightarrow> Inl e | Inr v \<Rightarrow> Inr (word_of_int v))"
    using assms ne by (simp add: fourCcFromString_def)
  have a: "stoi16 s = Inr (stoi16_value s) \<and>
           fourCcFromString s = Inr (word_of_int (stoi16_value s))"
    if "stoi16_digits s \<noteq> []" "in_int_range (stoi16_value s)"
    using that by (simp add: f stoi16_cases)
  have b: "fourCcFromString s = Inl Std_invalid_argument \<longleftrightarrow> stoi16_digits s = []"
    by (simp add: f stoi16_cases)
  have c: "fourCcFromString s = Inl Std_out_of_range \<longleftrightarrow>
             stoi16_digits s \<noteq> [] \<and> \<not> in_int_range (stoi16_value s)"
    by (simp add: f stoi16_cases)
  have 1: "fourCcFromString s = Inr (of_nat (hex_value s))"
    if "\<forall>c\<in>set s. is_xdigit c" "hex_value s \<le> 2147483647"
    using that by (simp add: f stoi16_all_hex [OF ne that(1)])
  have 2: "fourCcFromString s = Inl Std_out_of_range"
    if "\<forall>c\<in>set s. is_xdigit c" "2147483647 < hex_value s"
    using that by (simp add: f stoi16_all_hex [OF ne that(1)])
  have 3: "fourCcFromString s = Inl Std_invalid_argument"
    if "\<not> c_isspace (hd s)" "hd s \<noteq> CHR ''-''" "hd s \<noteq> CHR ''+''" "\<not> is_xdigit (hd s)"
    using stoi16_no_digit [OF ne that] by (simp add: f)
  have 4: "fourCcFromString s = Inl e \<longleftrightarrow> stoi16 s = Inl e" for e
    by (simp add: f split: sum.splits)
  have 5: "e = Std_invalid_argument \<or> e = Std_out_of_range" if "fourCcFromString s = Inl e" for e
    using that 4 stoi16_failures by blast
  have old: "((\<forall>c\<in>set s. is_xdigit c) \<and> hex_value s \<le> 2147483647 \<longrightarrow>
            fourCcFromString s = Inr (of_nat (hex_value s))) \<and>
         ((\<forall>c\<in>set s. is_xdigit c) \<and> 2147483647 < hex_value s \<longrightarrow>
            fourCcFromString s = Inl Std_out_of_range) \<and>
         (\<not> c_isspace (hd s) \<and> hd s \<noteq> CHR ''-'' \<and> hd s \<noteq> CHR ''+'' \<and> \<not> is_xdigit (hd s) \<longrightarrow>
            fourCcFromString s = Inl Std_invalid_argument) \<and>
         (\<forall>e. fourCcFromString s = Inl e \<longleftrightarrow> stoi16 s = Inl e) \<and>
         (\<forall>e. fourCcFromString s = Inl e \<longrightarrow> e = Std_invalid_argument \<or> e = Std_out_of_range)"
    using 1 2 3 4 5 by blast
  show ?thesis
    by (intro conjI impI f b c old) (use a in blast)+
qed

theorem fourCcFromString_hex8_witness:
  "length ''47504a4d'' = 8 \<and> fourCcFromString ''47504a4d'' = Inr 0x47504A4D"
proof -
  have h: "length ''47504a4d'' = 8" by simp
  have x: "\<forall>c\<in>set ''47504a4d''. is_xdigit c" by (simp add: is_xdigit_def xdigit_val_def)
  have v: "hex_value ''47504a4d'' = 1196444237" by (simp add: hex_value_def xdigit_val_def)
  have "(\<forall>c\<in>set ''47504a4d''. is_xdigit c) \<and> hex_value ''47504a4d'' \<le> 2147483647 \<longrightarrow>
          fourCcFromString ''47504a4d'' = Inr (of_nat (hex_value ''47504a4d''))"
    using fourCcFromString_hex8 [OF h] by blast
  then have "fourCcFromString ''47504a4d'' = Inr (of_nat (hex_value ''47504a4d''))"
    using x v by simp
  then show ?thesis by (simp add: v)
qed

text \<open>
  Eight characters of which stoi reads seven: the parse succeeds and the value of the
  seven digits is the code.
\<close>

lemma fourCcFromString_trailing_example: "fourCcFromString ''1234567g'' = Inr 0x1234567"
  by (simp add: fourCcFromString_def stoi16_def c_isspace_def is_xdigit_def xdigit_val_def hex_value_def)

text \<open>
  The claim as written asks for the failure \<open>InvalidFourCC\<close> when the parse fails. Eight
  letters \<^verbatim>\<open>z\<close> give the exception of the numeric parser.
\<close>

theorem fourCcFromString_hex8_counterexample:
  "length ''zzzzzzzz'' = 8 \<and>
   fourCcFromString ''zzzzzzzz'' = Inl Std_invalid_argument \<and>
   fourCcFromString ''zzzzzzzz'' \<noteq> Inl InvalidFourCC"
  by (simp add: fourCcFromString_def stoi16_def c_isspace_def is_xdigit_def xdigit_val_def)

section \<open>Properties of the resource path resolver\<close>

subsection \<open>Worked examples\<close>

text \<open>
  The scheme test needs two characters before the colon and admits a comma; the fields
  of a search path; a hit in the second root of \<^verbatim>\<open>BACKSCRUB_PATH\<close>; the two paths
  derived from the location of the executable, also for an executable in the root
  directory, where \<^verbatim>\<open>pos - 1\<close> wraps and the second search finds the same separator.
\<close>

lemma uri_scheme_match_examples: "uri_scheme_match ''http://x/y''" "\<not> uri_scheme_match ''c:/x''" "uri_scheme_match ''a,b:''"
  by (simp_all add: scheme_char_def c_isalnum_def c_isalpha_def regex_dot_def)

lemma getline_fields_examples: "getline_fields ''/a:/b::/c:'' = [''/a'', ''/b'', '''', ''/c'']"
  "getline_fields '''' = []" "getline_fields '':x'' = ['''', ''x'']"
  by (simp_all add: getline_fields.simps)

lemma resolve_path_search_path_example: "resolve_path ''/usr''
    \<lparr>getenv = [''BACKSCRUB_PATH'' \<mapsto> ''/a:/b''], ifstream_good = (\<lambda>p. p = ''/b/models/foo.dat''),
     regular_file = (\<lambda>p. p = ''/b/models/foo.dat''), readlink_exe = None\<rparr> ''foo.dat'' ''models''
  = ([Open ''foo.dat'', Getenv ''BACKSCRUB_PATH'', Getenv ''BACKSCRUB_PATH'',
      Open ''/a/models/foo.dat'', Open ''/b/models/foo.dat''], Inr (Some ''/b/models/foo.dat''))"
  by (simp add: resolve_path_def tier_path_def tier_xdg_def after_def getline_fields.simps
      scheme_char_def c_isalnum_def c_isalpha_def Let_def)

lemma tier_exe_example: "tier_exe
    \<lparr>getenv = (\<lambda>v. None), ifstream_good = (\<lambda>p. p = ''/usr/local/models/foo.dat''),
     regular_file = (\<lambda>p. p = ''/usr/local/models/foo.dat''),
     readlink_exe = Some ''/usr/local/bin/backscrub''\<rparr> ''models'' ''foo.dat''
  = ([Readlink, Open ''/usr/local/share/backscrub/models/foo.dat'', Open ''/usr/local/models/foo.dat''],
     Inr (Some ''/usr/local/models/foo.dat''))"
  by (simp add: tier_exe_def rfind_def npos_def size_t_pred_def Let_def)

lemma tier_exe_root_example: "tier_exe
    \<lparr>getenv = (\<lambda>v. None), ifstream_good = (\<lambda>p. False),
     regular_file = (\<lambda>p. False), readlink_exe = Some ''/bs''\<rparr> ''models'' ''foo.dat''
  = ([Readlink, Open ''/share/backscrub/models/foo.dat'', Open ''/models/foo.dat''],
     Inr None)"
  by (simp add: tier_exe_def rfind_def npos_def size_t_pred_def Let_def)


subsection \<open>When the function fails\<close>

text \<open>
  The tiers after the data-home tier always return. The function fails exactly when the
  search reaches the data-home tier with neither \<^verbatim>\<open>XDG_DATA_HOME\<close> nor \<^verbatim>\<open>HOME\<close> set.
\<close>

lemma snd_after: "snd (after es r) = snd r"
  by (simp add: after_def)

lemma tier_exe_returns: "\<exists>r. snd (tier_exe w type provided) = Inr r"
  by (simp add: tier_exe_def Let_def split: option.splits)

lemma tier_prefix_returns: "\<exists>r. snd (tier_prefix P w type provided) = Inr r"
  using tier_exe_returns [of w type provided] by (simp add: tier_prefix_def Let_def snd_after)

lemma tier_xdg_fails_iff:
  "(\<exists>e. snd (tier_xdg P w type provided) = Inl e) \<longleftrightarrow>
     getenv w ''XDG_DATA_HOME'' = None \<and> getenv w ''HOME'' = None"
  using tier_prefix_returns [of P w type provided]
  by (auto simp: tier_xdg_def Let_def snd_after split: option.splits)

lemma resolve_path_fails_iff:
  "(\<exists>e. snd (resolve_path P w provided type) = Inl e) \<longleftrightarrow>
     \<not> uri_scheme_match provided \<and> \<not> ifstream_good w provided \<and> CHR ''/'' \<notin> set provided \<and>
     (case getenv w ''BACKSCRUB_PATH'' of
        None \<Rightarrow> True
      | Some bsp \<Rightarrow> snd (search_roots w type provided (getline_fields bsp)) = None) \<and>
     getenv w ''XDG_DATA_HOME'' = None \<and> getenv w ''HOME'' = None"
  using tier_xdg_fails_iff [of P w type provided]
  by (auto simp: resolve_path_def tier_path_def snd_after split: option.splits prod.splits)

subsection \<open>The claims\<close>

text \<open>
  Claim C7, as the source has it. For a name that contains a path separator, does not
  match the scheme pattern and cannot be opened for reading at the literal path
  (\<^verbatim>\<open>std::ifstream(name).good()\<close> is false), \<^verbatim>\<open>resolve_path\<close> returns "not found" at
  once. The list of accesses is the one probe of the literal path: no environment
  variable is read, the link of the executable is not read, no other path is probed;
  and the result is the same in every world and for every install prefix.
\<close>

theorem resolve_path_separator_stops:
  assumes "CHR ''/'' \<in> set provided" "\<not> uri_scheme_match provided"
    "\<not> ifstream_good w provided"
  shows "resolve_path INSTALL_PREFIX w provided type = ([Open provided], Inr None)"
  using assms by (simp add: resolve_path_def)

theorem resolve_path_separator_stops_witness:
  "CHR ''/'' \<in> set ''sub/foo.dat'' \<and> \<not> uri_scheme_match ''sub/foo.dat'' \<and>
   \<not> ifstream_good ex_world_full ''sub/foo.dat'' \<and>
   resolve_path ''/usr'' ex_world_full ''sub/foo.dat'' ''models'' = ([Open ''sub/foo.dat''], Inr None)"
proof -
  have h: "CHR ''/'' \<in> set ''sub/foo.dat''" "\<not> uri_scheme_match ''sub/foo.dat''"
    "\<not> ifstream_good ex_world_full ''sub/foo.dat''"
    by (simp_all add: ex_world_full_def scheme_char_def c_isalnum_def c_isalpha_def)
  show ?thesis using h resolve_path_separator_stops [OF h] by simp
qed

text \<open>
  The claim as written has the condition that no readable regular file exists at the
  literal path. The probe of the source is weaker than that: it asks whether the path
  opens. A directory at the literal path is no regular file, opens, and is returned.
\<close>

theorem resolve_path_directory_counterexample:
  "CHR ''/'' \<in> set ''sub/dir'' \<and> \<not> uri_scheme_match ''sub/dir'' \<and>
   \<not> regular_file ex_world_dir ''sub/dir'' \<and>
   resolve_path ''/usr'' ex_world_dir ''sub/dir'' ''models'' =
     ([Open ''sub/dir''], Inr (Some ''sub/dir'')) \<and>
   snd (resolve_path ''/usr'' ex_world_dir ''sub/dir'' ''models'') \<noteq> Inr None"
  by (simp add: resolve_path_def ex_world_dir_def scheme_char_def c_isalnum_def c_isalpha_def)

text \<open>
  With a separator and no scheme, the result is decided by that one probe alone.
\<close>

lemma resolve_path_separator_result:
  assumes "CHR ''/'' \<in> set provided" "\<not> uri_scheme_match provided"
  shows "resolve_path INSTALL_PREFIX w provided type =
           ([Open provided], Inr (if ifstream_good w provided then Some provided else None))"
  using assms by (simp add: resolve_path_def)

text \<open>
  Claim C8 says that the function completes for every combination of set and unset
  variables. The source tests \<^verbatim>\<open>BACKSCRUB_PATH\<close> and \<^verbatim>\<open>XDG_DATA_HOME\<close> for the null
  pointer, but appends \<^verbatim>\<open>getenv("HOME")\<close> to a \<^verbatim>\<open>std::string\<close> untested. With no
  variable set and no file \<^verbatim>\<open>foo.dat\<close> in the working directory, the function reads
  the three variables and then uses the null pointer as a C string.
\<close>

theorem resolve_path_home_unset_crash:
  "resolve_path ''/usr'' ex_world_bare ''foo.dat'' ''models'' =
     ([Open ''foo.dat'', Getenv ''BACKSCRUB_PATH'', Getenv ''XDG_DATA_HOME'', Getenv ''HOME''],
      Inl NullPointer)"
  by (simp add: resolve_path_def tier_path_def tier_xdg_def after_def ex_world_bare_def
      scheme_char_def c_isalnum_def c_isalpha_def)

end
